theory Spec2Isabelle
  imports Main "HOL-Library.Multiset" "HOL-Library.Sublist"
begin

section \<open>The Droppable component: the drag-enter counter\<close>

text \<open>
  \<^verbatim>\<open>Droppable\<close> keeps one piece of state, \<^verbatim>\<open>dragEnterCounter\<close>, a JavaScript number that
  starts at 0 and only ever moves by whole steps (exactly so while its size stays below
  \<open>2^53\<close>), so it is an \<^typ>\<open>int\<close> here. Every
  handler is a closure over the value the counter had when the component was rendered.
  What a handler does is a list of effects, in the order the source performs them: a
  call of \<^verbatim>\<open>setDragEnterCounter\<close>, or a call of one of the three callbacks the owner
  passed in.
\<close>

datatype Effect =
    SetDragEnterCounter int
  | CallOnDragLeave
  | CallOnDragOver
  | CallOnDrop

datatype DragEvent = DragEnter | DragLeave | DragOver | Drop

definition onDragEnter :: "int \<Rightarrow> Effect list" where
  "onDragEnter dragEnterCounter = [SetDragEnterCounter (dragEnterCounter + 1)]"

definition onDragLeave :: "int \<Rightarrow> Effect list" where
  "onDragLeave dragEnterCounter =
     (let nextDragEnterCounter = dragEnterCounter - 1
      in SetDragEnterCounter nextDragEnterCounter #
         (if nextDragEnterCounter \<le> 0 then [CallOnDragLeave] else []))"

definition onDragOver :: "int \<Rightarrow> Effect list" where
  "onDragOver dragEnterCounter = [CallOnDragOver]"

definition onDrop :: "int \<Rightarrow> Effect list" where
  "onDrop dragEnterCounter = [SetDragEnterCounter 0, CallOnDrop]"

fun Droppable_handle :: "int \<Rightarrow> DragEvent \<Rightarrow> Effect list" where
  "Droppable_handle c DragEnter = onDragEnter c"
| "Droppable_handle c DragLeave = onDragLeave c"
| "Droppable_handle c DragOver = onDragOver c"
| "Droppable_handle c Drop = onDrop c"

text \<open>
  The counter of the next render: the value of the last \<^verbatim>\<open>setDragEnterCounter\<close> call of
  the handler, or the old value when the handler made none.
\<close>

fun commit :: "int \<Rightarrow> Effect list \<Rightarrow> int" where
  "commit c [] = c"
| "commit c (SetDragEnterCounter n # fx) = commit n fx"
| "commit c (_ # fx) = commit c fx"

text \<open>
  A sequence of events, each handled by the render that follows the previous one:
  the final counter and the trace of all effects.
\<close>

fun Droppable_run :: "int \<Rightarrow> DragEvent list \<Rightarrow> int \<times> Effect list" where
  "Droppable_run c [] = (c, [])"
| "Droppable_run c (e # es) =
     (let fx = Droppable_handle c e;
          r = Droppable_run (commit c fx) es
      in (fst r, fx @ snd r))"

text \<open>The calls of the owner's callbacks in a trace, in order.\<close>

fun isCallback :: "Effect \<Rightarrow> bool" where
  "isCallback (SetDragEnterCounter _) = False"
| "isCallback _ = True"

definition callbacks :: "Effect list \<Rightarrow> Effect list" where
  "callbacks tr = filter isCallback tr"

text \<open>
  The net count of a sequence of events from a starting counter: one up for each enter,
  one down for each leave.
\<close>

definition net :: "int \<Rightarrow> DragEvent list \<Rightarrow> int" where
  "net c evs = c + int (count_list evs DragEnter) - int (count_list evs DragLeave)"

text \<open>
  The number of leaves in a sequence of events after which the net count is at or below
  zero: the non-empty prefixes that end in a leave and whose net count is \<open>\<le> 0\<close>.
\<close>

definition leavesAtOrBelowZero :: "int \<Rightarrow> DragEvent list \<Rightarrow> nat" where
  "leavesAtOrBelowZero c evs =
     length (filter (\<lambda>p. last p = DragLeave \<and> net c p \<le> 0) (tl (prefixes evs)))"

section \<open>The tier list: data\<close>

text \<open>
  An \<^verbatim>\<open>Item\<close> is a JavaScript object, and the program compares items in two ways: by
  reference (\<^verbatim>\<open>Set\<close> membership, \<^verbatim>\<open>Set.delete\<close>) and by label
  (\<^verbatim>\<open>i.label === item.label\<close>). An item is therefore the address of its object, and the
  objects live in a table \<open>h\<close> from addresses to their fields. No item object is created
  or changed after the first render, so the table is a parameter, not a part of the state.
\<close>

type_synonym ref = nat

record Item =
  label :: "string option"
  imgSrc :: "string option"

text \<open>
  A \<^verbatim>\<open>Set<Item>\<close> keeps its elements in insertion order without repetition; it is the list
  of its elements in that order (what \<^verbatim>\<open>Array.from\<close> returns). \<^verbatim>\<open>new Set(array)\<close> adds
  the elements of the array one by one, and an element already present stays where it is.
\<close>

definition Set_add :: "'a list \<Rightarrow> 'a \<Rightarrow> 'a list" where
  "Set_add s x = (if x \<in> set s then s else s @ [x])"

definition newSet :: "'a list \<Rightarrow> 'a list" where
  "newSet xs = foldl Set_add [] xs"

definition Set_delete :: "'a list \<Rightarrow> 'a \<Rightarrow> 'a list" where
  "Set_delete s x = filter (\<lambda>y. y \<noteq> x) s"

text \<open>
  The sets of items of the tiers are never changed once built (every path builds a new
  one), so a tier holds the value of its set. \<^verbatim>\<open>order\<close> and \<^verbatim>\<open>color\<close> are carried along
  by the object spreads and never read.
\<close>

record Tier =
  label :: string
  order :: "int option"
  color :: "string option"
  colorClass :: "string option"
  items :: "ref list"

text \<open>
  The candidate list is the one set the program changes in place
  (\<^verbatim>\<open>candidatelist.delete(item)\<close>), so the state holds the address of that set object, and
  \<open>setHeap\<close> gives the elements of the set object at each address; \<open>nextSetref\<close> is the
  address the next \<^verbatim>\<open>new Set\<close> for the candidate list gets.
\<close>

type_synonym setref = nat

record State =
  tierlist :: "Tier list"
  candidatelist :: setref
  draggedCandidateItem :: "ref option"
  draggedTierItem :: "ref option"
  setHeap :: "setref \<Rightarrow> ref list"
  nextSetref :: setref

text \<open>\<^verbatim>\<open>Array.from(candidatelist)\<close>: the items of the candidate pool, in order.\<close>

definition pool :: "State \<Rightarrow> ref list" where
  "pool s = setHeap s (candidatelist s)"

section \<open>The tier list: the handlers of Home\<close>

text \<open>
  A handler is a closure over the state of the render that created it: the argument \<open>s\<close>.
  A call \<^verbatim>\<open>setTierlist(v)\<close> (and likewise for the other three state variables) does not
  change what the handler reads; it records \<open>v\<close> for the next render, and a later call in
  the same handler replaces an earlier one. Where one handler calls another, the state
  recorded so far is the argument \<open>p\<close>, and the result is the state recorded after the
  call. A change of a set object in place is visible at once, so it is made in \<open>p\<close> at
  the address that \<open>s\<close> holds. Removing the drag image from the document
  (\<^verbatim>\<open>disposeDragImage\<close>) touches nothing that the handlers read and is left out.
\<close>

definition dragCandidateItem :: "ref \<Rightarrow> State \<Rightarrow> State" where
  "dragCandidateItem item p = p\<lparr>draggedCandidateItem := Some item\<rparr>"

definition undragCandidateItem :: "State \<Rightarrow> State" where
  "undragCandidateItem p = p\<lparr>draggedCandidateItem := None\<rparr>"

definition dragTierItem :: "ref \<Rightarrow> State \<Rightarrow> State" where
  "dragTierItem item p = p\<lparr>draggedTierItem := Some item\<rparr>"

definition undragTierItem :: "State \<Rightarrow> State" where
  "undragTierItem p = p\<lparr>draggedTierItem := None\<rparr>"

definition removeItemFromCandidatelist :: "State \<Rightarrow> ref \<Rightarrow> State \<Rightarrow> State" where
  "removeItemFromCandidatelist s item p =
     p\<lparr>setHeap := (setHeap p)(candidatelist s := Set_delete (setHeap p (candidatelist s)) item),
       candidatelist := candidatelist s\<rparr>"

definition removeItemFromTier :: "(ref \<Rightarrow> Item) \<Rightarrow> Tier \<Rightarrow> ref \<Rightarrow> Tier" where
  "removeItemFromTier h tierOrigin item =
     (let newItems = newSet (filter (\<lambda>i. Item.label (h i) \<noteq> Item.label (h item)) (items tierOrigin))
      in tierOrigin\<lparr>items := newItems\<rparr>)"

definition addItemToTier :: "Tier \<Rightarrow> ref \<Rightarrow> Tier" where
  "addItemToTier tier item = tier\<lparr>items := newSet (items tier @ [item])\<rparr>"

definition moveCandidateItemToTier :: "State \<Rightarrow> Tier \<Rightarrow> ref \<Rightarrow> State \<Rightarrow> State" where
  "moveCandidateItemToTier s tier item p =
     (let p1 = p\<lparr>tierlist :=
                  map (\<lambda>t. if Tier.label t = Tier.label tier then addItemToTier t item else t)
                    (tierlist s)\<rparr>;
          p2 = removeItemFromCandidatelist s item p1
      in p2\<lparr>draggedCandidateItem := None\<rparr>)"

text \<open>
  \<^verbatim>\<open>tierlist.find((t) => Array.from(t.items).find((i) => i.label === item.label))\<close>:
  the inner \<^verbatim>\<open>find\<close> returns an item object (truthy) or \<^verbatim>\<open>undefined\<close>, so the outer one
  returns the first tier that holds an item with the label of \<open>item\<close>.
\<close>

definition findOriginTier :: "(ref \<Rightarrow> Item) \<Rightarrow> Tier list \<Rightarrow> ref \<Rightarrow> Tier option" where
  "findOriginTier h tiers item =
     List.find (\<lambda>t. List.find (\<lambda>i. Item.label (h i) = Item.label (h item)) (items t) \<noteq> None)
       tiers"

definition moveTierItemToAnotherTier ::
  "(ref \<Rightarrow> Item) \<Rightarrow> State \<Rightarrow> Tier \<Rightarrow> ref \<Rightarrow> State \<Rightarrow> State" where
  "moveTierItemToAnotherTier h s targetTier item p =
     (case findOriginTier h (tierlist s) item of
        None \<Rightarrow> p
      | Some originTier \<Rightarrow>
          (let newTierlist =
                 map (\<lambda>t. if Tier.label t = Tier.label targetTier then addItemToTier t item else t)
                   (map (\<lambda>t. if Tier.label t = Tier.label originTier
                             then removeItemFromTier h originTier item else t)
                      (tierlist s))
           in p\<lparr>tierlist := newTierlist, draggedTierItem := None\<rparr>))"

definition handleDropOnTierList :: "(ref \<Rightarrow> Item) \<Rightarrow> Tier \<Rightarrow> State \<Rightarrow> State" where
  "handleDropOnTierList h tier s =
     (let p1 = (case draggedCandidateItem s of
                  Some item \<Rightarrow> moveCandidateItemToTier s tier item s
                | None \<Rightarrow> s);
          p2 = (case draggedTierItem s of
                  Some item \<Rightarrow> moveTierItemToAnotherTier h s tier item p1
                | None \<Rightarrow> p1)
      in p2)"

definition addItemToCandidate :: "State \<Rightarrow> ref \<Rightarrow> State \<Rightarrow> State" where
  "addItemToCandidate s item p =
     (let a = nextSetref p
      in p\<lparr>setHeap := (setHeap p)(a := newSet (setHeap p (candidatelist s) @ [item])),
           nextSetref := a + 1,
           candidatelist := a\<rparr>)"

text \<open>
  The branch \<^verbatim>\<open>if (draggedCandidateItem) { /* do nothing */ }\<close> of the next handler has an
  empty body.
\<close>

definition handleDropOnCandidateList :: "(ref \<Rightarrow> Item) \<Rightarrow> State \<Rightarrow> State" where
  "handleDropOnCandidateList h s =
     (case draggedTierItem s of
        None \<Rightarrow> s
      | Some item \<Rightarrow>
          (case findOriginTier h (tierlist s) item of
             None \<Rightarrow> s
           | Some originTier \<Rightarrow>
               (let p1 = s\<lparr>tierlist :=
                            map (\<lambda>t. if Tier.label t = Tier.label originTier
                                      then removeItemFromTier h originTier item else t)
                              (tierlist s)\<rparr>;
                    p2 = addItemToCandidate s item p1
                in p2\<lparr>draggedTierItem := None\<rparr>)))"

definition resetList :: "State \<Rightarrow> State" where
  "resetList s =
     (let itemsInTierlist = foldl (\<lambda>result tier. result @ items tier) [] (tierlist s);
          tierlistWithoutItems = map (\<lambda>tier. tier\<lparr>items := newSet []\<rparr>) (tierlist s);
          a = nextSetref s
      in s\<lparr>tierlist := tierlistWithoutItems,
           setHeap := (setHeap s)(a := newSet (setHeap s (candidatelist s) @ itemsInTierlist)),
           nextSetref := a + 1,
           candidatelist := a\<rparr>)"

section \<open>The tier list: the first render\<close>

text \<open>
  The four item objects of the initial state, at addresses 0 to 3; no object lives at
  another address (a blank item stands there, and no state below holds such an address).
\<close>

definition seedItems :: "ref \<Rightarrow> Item" where
  "seedItems r =
     (if r = 0 then \<lparr>Item.label = Some ''Vivo'',
                     imgSrc = Some ''https://fdn2.gsmarena.com/vv/bigpic/vivo-y16.jpg''\<rparr>
      else if r = 1 then \<lparr>Item.label = Some ''Item 1'',
                     imgSrc = Some ''https://fdn2.gsmarena.com/vv/bigpic/vivo-iqoo-z6-lite-5g.jpg''\<rparr>
      else if r = 2 then \<lparr>Item.label = Some ''Item 2'',
                     imgSrc = Some ''https://fdn2.gsmarena.com/vv/bigpic/realme-c30s.jpg''\<rparr>
      else if r = 3 then \<lparr>Item.label = Some ''Item 3'',
                     imgSrc = Some ''https://fdn2.gsmarena.com/vv/bigpic/oppo-k10x-.jpg''\<rparr>
      else \<lparr>Item.label = None, imgSrc = None\<rparr>)"

definition seedTier :: "string \<Rightarrow> string \<Rightarrow> ref list \<Rightarrow> Tier" where
  "seedTier l c its =
     \<lparr>Tier.label = l, order = None, color = None, colorClass = Some c, items = newSet its\<rparr>"

definition tierS :: Tier where
  "tierS = seedTier ''S'' ''bg-indigo-500 text-white'' [0]"

definition tierA :: Tier where
  "tierA = seedTier ''A'' ''bg-sky-500 text-white'' []"

definition tierB :: Tier where
  "tierB = seedTier ''B'' ''bg-green-500 text-white'' []"

definition tierC :: Tier where
  "tierC = seedTier ''C'' ''bg-lime-500 text-white'' []"

definition tierD :: Tier where
  "tierD = seedTier ''D'' ''bg-yellow-500 text-white'' []"

definition tierE :: Tier where
  "tierE = seedTier ''E'' ''bg-orange-500 text-white'' []"

definition tierF :: Tier where
  "tierF = seedTier ''F'' ''bg-red-500 text-white'' []"

definition seed :: State where
  "seed =
     \<lparr>tierlist = [tierS, tierA, tierB, tierC, tierD, tierE, tierF],
      candidatelist = 0,
      draggedCandidateItem = None,
      draggedTierItem = None,
      setHeap = (\<lambda>_. [])(0 := newSet [1, 2, 3]),
      nextSetref = 1\<rparr>"

text \<open>
  A table of item objects in which every item has the same label: what the page would
  work on had its initial items been written with one label.
\<close>

definition twinItems :: "ref \<Rightarrow> Item" where
  "twinItems r = \<lparr>Item.label = Some ''Twin'', imgSrc = None\<rparr>"

section \<open>The tier list: sequences of handler calls\<close>

text \<open>
  The calls the rendered page can make. \<^verbatim>\<open>CandidateList\<close> renders one draggable per item
  of the pool and passes it \<^verbatim>\<open>dragCandidateItem\<close>; \<^verbatim>\<open>Tier\<close> renders one per item of the
  tier and passes it \<^verbatim>\<open>dragTierItem\<close>; \<^verbatim>\<open>TierList\<close> renders one drop target per tier of
  the list and passes that tier to \<^verbatim>\<open>handleDropOnTierList\<close>.
\<close>

datatype Op =
    DragCandidateItem ref
  | UndragCandidateItem
  | DragTierItem ref
  | UndragTierItem
  | DropOnTierList Tier
  | DropOnCandidateList
  | ResetList

definition tierItems :: "State \<Rightarrow> ref list" where
  "tierItems s = concat (map items (tierlist s))"

definition allItems :: "State \<Rightarrow> ref list" where
  "allItems s = pool s @ tierItems s"

fun offered :: "State \<Rightarrow> Op \<Rightarrow> bool" where
  "offered s (DragCandidateItem item) = (item \<in> set (pool s))"
| "offered s (DragTierItem item) = (item \<in> set (tierItems s))"
| "offered s (DropOnTierList tier) = (tier \<in> set (tierlist s))"
| "offered s _ = True"

fun step :: "(ref \<Rightarrow> Item) \<Rightarrow> State \<Rightarrow> Op \<Rightarrow> State" where
  "step h s (DragCandidateItem item) = dragCandidateItem item s"
| "step h s UndragCandidateItem = undragCandidateItem s"
| "step h s (DragTierItem item) = dragTierItem item s"
| "step h s UndragTierItem = undragTierItem s"
| "step h s (DropOnTierList tier) = handleDropOnTierList h tier s"
| "step h s DropOnCandidateList = handleDropOnCandidateList h s"
| "step h s ResetList = resetList s"

text \<open>
  A sequence of calls, each made on the render that follows the previous one; \<open>None\<close>
  when the page of some render does not offer the next call.
\<close>

fun exec :: "(ref \<Rightarrow> Item) \<Rightarrow> State \<Rightarrow> Op list \<Rightarrow> State option" where
  "exec h s [] = Some s"
| "exec h s (x # xs) = (if offered s x then exec h (step h s x) xs else None)"

text \<open>The items of the tier with a given label (of the first such tier).\<close>

definition itemsOfTier :: "State \<Rightarrow> string \<Rightarrow> ref list" where
  "itemsOfTier s l =
     (case List.find (\<lambda>t. Tier.label t = l) (tierlist s) of
        None \<Rightarrow> []
      | Some t \<Rightarrow> items t)"

text \<open>The label of each item of a list of items.\<close>

definition labelsOf :: "(ref \<Rightarrow> Item) \<Rightarrow> ref list \<Rightarrow> string option list" where
  "labelsOf h xs = map (\<lambda>i. Item.label (h i)) xs"

section \<open>The tier list: well-formed states\<close>

text \<open>
  The invariants of the data model, with what the drag selections point at: each tier
  label names one tier; no two items in the pool and the tiers together share a label
  (so no item is in two places, or twice in one); an item selected from the pool is in
  the pool; an item selected from a tier is in the pool or in a tier.
\<close>

definition wellFormed :: "(ref \<Rightarrow> Item) \<Rightarrow> State \<Rightarrow> bool" where
  "wellFormed h s =
     (distinct (map Tier.label (tierlist s))
      \<and> distinct (labelsOf h (allItems s))
      \<and> (case draggedCandidateItem s of None \<Rightarrow> True | Some i \<Rightarrow> i \<in> set (pool s))
      \<and> (case draggedTierItem s of None \<Rightarrow> True | Some i \<Rightarrow> i \<in> set (allItems s)))"

text \<open>
  A sequence of calls in which no drop on a tier is made while both drag selections are
  set. The data model has at most one drag selection at a time: a drag ends, in a drop
  handler or in \<^verbatim>\<open>onDragEnd\<close>, before the next one begins, and every sequence of that
  kind is one of these.
\<close>

fun oneSelectionAtTierDrops :: "(ref \<Rightarrow> Item) \<Rightarrow> State \<Rightarrow> Op list \<Rightarrow> bool" where
  "oneSelectionAtTierDrops h s [] = True"
| "oneSelectionAtTierDrops h s (DropOnTierList tier # xs) =
     ((draggedCandidateItem s = None \<or> draggedTierItem s = None)
      \<and> oneSelectionAtTierDrops h (step h s (DropOnTierList tier)) xs)"
| "oneSelectionAtTierDrops h s (x # xs) = oneSelectionAtTierDrops h (step h s x) xs"

text \<open>The label of each item of a state of the page, pool first, then tier by tier.\<close>

definition seedLabels :: "State \<Rightarrow> string option list" where
  "seedLabels s = labelsOf seedItems (allItems s)"

text \<open>
  The places an item can be in: the pool and the items of each tier, in order; and the
  places that hold an item with a given label.
\<close>

definition locations :: "State \<Rightarrow> ref list list" where
  "locations s = pool s # map items (tierlist s)"

definition locationsOf :: "(ref \<Rightarrow> Item) \<Rightarrow> State \<Rightarrow> string option \<Rightarrow> ref list list" where
  "locationsOf h s l = filter (\<lambda>loc. l \<in> set (labelsOf h loc)) (locations s)"

text \<open>What is seen of a state: the pool, the items of each tier, the two drag selections.\<close>

definition view :: "State \<Rightarrow> ref list \<times> ref list list \<times> ref option \<times> ref option" where
  "view s = (pool s, map items (tierlist s), draggedCandidateItem s, draggedTierItem s)"

section \<open>Theorems about the drag-enter counter\<close>

lemma net_Nil: "net c [] = c"
  by (simp add: net_def)

lemma net_Enter: "net c (DragEnter # p) = net (c + 1) p"
  by (simp add: net_def)

lemma net_Leave: "net c (DragLeave # p) = net (c - 1) p"
  by (simp add: net_def)

lemma tl_prefixes_Cons: "tl (prefixes (x # xs)) = [x] # map ((#) x) (tl (prefixes xs))"
  by (cases xs) simp_all

lemma tl_prefixes_nonempty: "p \<in> set (tl (prefixes xs)) \<Longrightarrow> p \<noteq> []"
  by (cases xs) auto

lemma leavesAtOrBelowZero_Nil: "leavesAtOrBelowZero c [] = 0"
  by (simp add: leavesAtOrBelowZero_def)

lemma leavesAtOrBelowZero_Enter:
  "leavesAtOrBelowZero c (DragEnter # es) = leavesAtOrBelowZero (c + 1) es"
proof -
  have "filter ((\<lambda>p. last p = DragLeave \<and> net c p \<le> 0) \<circ> (#) DragEnter) (tl (prefixes es))
      = filter (\<lambda>p. last p = DragLeave \<and> net (c + 1) p \<le> 0) (tl (prefixes es))"
    by (rule filter_cong) (auto simp: net_Enter dest: tl_prefixes_nonempty)
  then show ?thesis
    by (simp only: leavesAtOrBelowZero_def tl_prefixes_Cons)
       (simp add: filter_map net_Enter net_Nil)
qed

lemma leavesAtOrBelowZero_Leave:
  "leavesAtOrBelowZero c (DragLeave # es) =
     (if c - 1 \<le> 0 then 1 else 0) + leavesAtOrBelowZero (c - 1) es"
proof -
  have "filter ((\<lambda>p. last p = DragLeave \<and> net c p \<le> 0) \<circ> (#) DragLeave) (tl (prefixes es))
      = filter (\<lambda>p. last p = DragLeave \<and> net (c - 1) p \<le> 0) (tl (prefixes es))"
    by (rule filter_cong) (auto simp: net_Leave dest: tl_prefixes_nonempty)
  then show ?thesis
    by (simp only: leavesAtOrBelowZero_def tl_prefixes_Cons)
       (simp add: filter_map net_Leave net_Nil)
qed

text \<open>
  Claim C4, as the code has it. In a sequence of enter and leave events, started at any
  counter, every enter moves the counter one up and every leave one down (the final
  counter is the net count), a leave calls the owner's leave callback once when the
  counter it leaves behind is \<open>\<le> 0\<close> and not otherwise, and nothing else calls a
  callback: the callbacks of the whole sequence are as many leave callbacks as there are
  leaves after which the net count is \<open>\<le> 0\<close>. A leave that finds the counter already at
  or below zero is such a leave.
\<close>

theorem C4_leave_callback_per_leave_at_or_below_zero:
  assumes "set evs \<subseteq> {DragEnter, DragLeave}"
  shows "fst (Droppable_run c evs) = net c evs
       \<and> callbacks (snd (Droppable_run c evs))
           = replicate (leavesAtOrBelowZero c evs) CallOnDragLeave
       \<and> commit c (Droppable_handle c DragLeave) = c - 1
       \<and> callbacks (Droppable_handle c DragLeave)
           = (if c - 1 \<le> 0 then [CallOnDragLeave] else [])"
proof -
  have run: "fst (Droppable_run c evs) = net c evs
       \<and> callbacks (snd (Droppable_run c evs))
           = replicate (leavesAtOrBelowZero c evs) CallOnDragLeave"
    using assms
  proof (induction evs arbitrary: c)
    case Nil
    show ?case
      by (simp add: net_Nil leavesAtOrBelowZero_Nil callbacks_def)
  next
    case (Cons e es)
    then have es: "set es \<subseteq> {DragEnter, DragLeave}"
      and e: "e = DragEnter \<or> e = DragLeave"
      by auto
    from e show ?case
    proof
      assume "e = DragEnter"
      then show ?thesis
        using Cons.IH [OF es, of "c + 1"]
        by (simp add: Let_def onDragEnter_def net_Enter leavesAtOrBelowZero_Enter callbacks_def)
    next
      assume "e = DragLeave"
      then show ?thesis
        using Cons.IH [OF es, of "c - 1"]
        by (simp add: Let_def onDragLeave_def net_Leave leavesAtOrBelowZero_Leave callbacks_def)
    qed
  qed
  have one: "commit c (Droppable_handle c DragLeave) = c - 1
       \<and> callbacks (Droppable_handle c DragLeave)
           = (if c - 1 \<le> 0 then [CallOnDragLeave] else [])"
    by (simp add: onDragLeave_def Let_def callbacks_def)
  from run one show ?thesis by simp
qed

theorem C4_witness:
  "set [DragEnter, DragLeave, DragLeave] \<subseteq> {DragEnter, DragLeave}
   \<and> fst (Droppable_run 0 [DragEnter, DragLeave, DragLeave]) = - 1
   \<and> callbacks (snd (Droppable_run 0 [DragEnter, DragLeave, DragLeave]))
       = [CallOnDragLeave, CallOnDragLeave]"
proof -
  have h: "set [DragEnter, DragLeave, DragLeave] \<subseteq> {DragEnter, DragLeave}"
    by simp
  have n: "net 0 [DragEnter, DragLeave, DragLeave] = - 1"
    by (simp add: net_def)
  have l: "leavesAtOrBelowZero 0 [DragEnter, DragLeave, DragLeave] = 2"
    by (simp add: leavesAtOrBelowZero_def net_def)
  show ?thesis
    using h C4_leave_callback_per_leave_at_or_below_zero [OF h, of 0]
    by (simp only: n l) (simp add: numeral_2_eq_2)
qed

text \<open>
  Claim C4 as stated fails. After enter, leave the counter is back at 0 and the leave
  callback has been called once. One more leave finds the counter already at 0, takes
  it to -1, and calls the leave callback again.
\<close>

theorem C4_counterexample:
  "fst (Droppable_run 0 [DragEnter, DragLeave]) = 0
   \<and> callbacks (snd (Droppable_run 0 [DragEnter, DragLeave])) = [CallOnDragLeave]
   \<and> Droppable_handle 0 DragLeave = [SetDragEnterCounter (- 1), CallOnDragLeave]
   \<and> callbacks (snd (Droppable_run 0 [DragEnter, DragLeave, DragLeave]))
       = [CallOnDragLeave, CallOnDragLeave]"
  by (simp add: callbacks_def onDragEnter_def onDragLeave_def Let_def)

text \<open>
  Claim C5. From a counter of 0, the events enter, enter, leave, leave call the owner's
  leave callback exactly once, and not before the second leave: after enter, enter, leave
  no callback has been called yet. The events enter, leave, enter, leave call it exactly
  twice.
\<close>

theorem C5_enter_enter_leave_leave:
  "callbacks (snd (Droppable_run 0 [DragEnter, DragEnter, DragLeave])) = []
   \<and> callbacks (snd (Droppable_run 0 [DragEnter, DragEnter, DragLeave, DragLeave])) = [CallOnDragLeave]
   \<and> callbacks (snd (Droppable_run 0 [DragEnter, DragLeave, DragEnter, DragLeave]))
       = [CallOnDragLeave, CallOnDragLeave]"
  by (simp add: callbacks_def onDragEnter_def onDragLeave_def Let_def)

text \<open>
  Claim C9. Whatever the counter is, a drop first sets the counter to 0 and then calls
  the owner's drop callback, and nothing else; the counter of the next render is 0.
\<close>

theorem C9_drop_resets_counter:
  "Droppable_handle c Drop = [SetDragEnterCounter 0, CallOnDrop]
   \<and> commit c (Droppable_handle c Drop) = 0
   \<and> Droppable_run c [Drop] = (0, [SetDragEnterCounter 0, CallOnDrop])"
  by (simp add: onDrop_def)

section \<open>Sets, tier lists and the scan for the origin tier\<close>

lemma foldl_Set_add_set: "set (foldl Set_add acc xs) = set acc \<union> set xs"
  by (induction xs arbitrary: acc) (auto simp: Set_add_def)

lemma foldl_Set_add_distinct: "distinct acc \<Longrightarrow> distinct (foldl Set_add acc xs)"
  by (induction xs arbitrary: acc) (auto simp: Set_add_def)

lemma foldl_Set_add_id: "distinct (acc @ xs) \<Longrightarrow> foldl Set_add acc xs = acc @ xs"
  by (induction xs arbitrary: acc) (auto simp: Set_add_def)

lemma set_newSet: "set (newSet xs) = set xs"
  by (simp add: newSet_def foldl_Set_add_set)

lemma distinct_newSet: "distinct (newSet xs)"
  by (simp add: newSet_def foldl_Set_add_distinct)

lemma newSet_distinct_id: "distinct xs \<Longrightarrow> newSet xs = xs"
  using foldl_Set_add_id [of "[]" xs] by (simp add: newSet_def)

lemma newSet_Nil: "newSet [] = []"
  by (simp add: newSet_def)

lemma foldl_append_items: "foldl (\<lambda>result tier. result @ items tier) acc ts = acc @ concat (map items ts)"
  by (induction ts arbitrary: acc) simp_all

lemma label_eq_iff:
  assumes "distinct (map Tier.label ts)" "T \<in> set ts" "t \<in> set ts"
  shows "(Tier.label t = Tier.label T) = (t = T)"
  using assms by (auto simp: distinct_map dest: inj_onD)

lemma map_if_label:
  assumes "distinct (map Tier.label ts)" "T \<in> set ts"
  shows "map (\<lambda>t. if Tier.label t = Tier.label T then g t else t) ts
       = map (\<lambda>t. if t = T then g T else t) ts"
  by (rule map_cong) (auto simp: label_eq_iff [OF assms])

lemma map_if_split:
  assumes "T \<notin> set pre" "T \<notin> set post"
  shows "map (\<lambda>t. if t = T then T' else t) (pre @ T # post) = pre @ T' # post"
proof -
  have "map (\<lambda>t. if t = T then T' else t) pre = pre"
    using assms(1) by (induction pre) auto
  moreover have "map (\<lambda>t. if t = T then T' else t) post = post"
    using assms(2) by (induction post) auto
  ultimately show ?thesis by simp
qed

lemma tier_split:
  assumes "distinct (map Tier.label ts)" "T \<in> set ts"
  obtains pre post where "ts = pre @ T # post" "T \<notin> set pre" "T \<notin> set post"
    "Tier.label T \<notin> Tier.label ` set pre" "Tier.label T \<notin> Tier.label ` set post"
proof -
  from assms(2) obtain pre post where ts: "ts = pre @ T # post"
    by (auto dest: split_list)
  with assms(1) have "Tier.label T \<notin> Tier.label ` set pre" "Tier.label T \<notin> Tier.label ` set post"
    by auto
  with ts that show thesis by blast
qed

lemma find_label_split:
  assumes "Tier.label T \<notin> Tier.label ` set pre"
  shows "List.find (\<lambda>t. Tier.label t = Tier.label T) (pre @ T # post) = Some T"
  using assms by (induction pre) auto

lemma labelsOf_append: "labelsOf h (xs @ ys) = labelsOf h xs @ labelsOf h ys"
  by (simp add: labelsOf_def)

lemma labelsOf_Cons: "labelsOf h (x # xs) = Item.label (h x) # labelsOf h xs"
  by (simp add: labelsOf_def)

lemma labelsOf_Nil: "labelsOf h [] = []"
  by (simp add: labelsOf_def)

lemma find_label_None:
  "(List.find (\<lambda>i. Item.label (h i) = l) xs \<noteq> None) = (l \<in> set (labelsOf h xs))"
  by (induction xs) (auto simp: labelsOf_Cons labelsOf_Nil)

lemma findOriginTier_find:
  "findOriginTier h ts item
     = List.find (\<lambda>t. Item.label (h item) \<in> set (labelsOf h (items t))) ts"
  unfolding findOriginTier_def by (simp only: find_label_None)

lemma findOriginTier_None:
  "(findOriginTier h ts item = None) = (Item.label (h item) \<notin> set (labelsOf h (concat (map items ts))))"
  by (induction ts) (simp_all add: findOriginTier_find labelsOf_append labelsOf_Nil)

lemma findOriginTier_split:
  assumes "Item.label (h item) \<notin> set (labelsOf h (concat (map items pre)))"
    and "Item.label (h item) \<in> set (labelsOf h (items T))"
  shows "findOriginTier h (pre @ T # post) item = Some T"
  using assms
  by (induction pre) (simp_all add: findOriginTier_find labelsOf_append labelsOf_Nil)


lemma itemsOfTier_split:
  assumes "tierlist s = pre @ T # post" "Tier.label T \<notin> Tier.label ` set pre"
  shows "itemsOfTier s (Tier.label T) = items T"
  using find_label_split [OF assms(2), of post] by (simp add: itemsOfTier_def assms(1))

lemma pool_moveCandidateItemToTier:
  "pool (moveCandidateItemToTier s T I s) = Set_delete (pool s) I"
  by (simp add: moveCandidateItemToTier_def removeItemFromCandidatelist_def pool_def Let_def)

lemma tierlist_moveCandidateItemToTier:
  "tierlist (moveCandidateItemToTier s T I p)
     = map (\<lambda>t. if Tier.label t = Tier.label T then addItemToTier t I else t) (tierlist s)"
  by (simp add: moveCandidateItemToTier_def removeItemFromCandidatelist_def Let_def)

lemma addItemToTier_new:
  assumes "distinct (items T)" "I \<notin> set (items T)"
  shows "addItemToTier T I = T\<lparr>items := items T @ [I]\<rparr>"
  using assms by (simp add: addItemToTier_def newSet_distinct_id)

lemma label_addItemToTier: "Tier.label (addItemToTier T I) = Tier.label T"
  by (simp add: addItemToTier_def)

lemma Set_delete_absent: "x \<notin> set xs \<Longrightarrow> Set_delete xs x = xs"
  by (induction xs) (auto simp: Set_delete_def)

lemma Set_delete_Cons:
  "Set_delete (y # xs) x = (if y = x then Set_delete xs x else y # Set_delete xs x)"
  by (simp add: Set_delete_def)

lemma mset_Set_delete:
  assumes "distinct xs" "x \<in> set xs"
  shows "add_mset x (mset (Set_delete xs x)) = mset xs"
  using assms
  by (induction xs) (auto simp: Set_delete_Cons Set_delete_absent)

section \<open>Evaluating the handlers on concrete states\<close>

lemmas seed_defs =
  seed_def tierS_def tierA_def tierB_def tierC_def tierD_def tierE_def tierF_def
  seedTier_def seedItems_def newSet_def Set_add_def

lemmas handler_defs =
  dragCandidateItem_def undragCandidateItem_def dragTierItem_def undragTierItem_def
  handleDropOnTierList_def handleDropOnCandidateList_def resetList_def
  moveCandidateItemToTier_def moveTierItemToAnotherTier_def addItemToCandidate_def
  removeItemFromCandidatelist_def removeItemFromTier_def addItemToTier_def
  findOriginTier_def Set_delete_def Let_def

lemmas view_defs =
  pool_def tierItems_def allItems_def itemsOfTier_def labelsOf_def

section \<open>Theorems about the tier list\<close>

text \<open>
  Claim C1. In a state where each tier label names one tier and no item occurs twice
  in the pool and the tiers together, let item \<open>I\<close> be in the pool and be the
  pool-origin drag selection, with no tier-origin selection, and let \<open>T\<close> be a tier of
  the list. After the drop on \<open>T\<close>, \<open>I\<close> is not in the pool, \<open>I\<close> is in the items of the
  tier labelled as \<open>T\<close>, \<open>I\<close> is in no tier with another label, the pool and the tiers
  hold as many items as before (indeed the same items), and the pool-origin selection is
  cleared. The tiers keep their labels and order.
\<close>

theorem C1_pool_item_to_tier:
  assumes labels: "distinct (map Tier.label (tierlist s))"
    and once: "distinct (allItems s)"
    and T: "T \<in> set (tierlist s)"
    and I: "I \<in> set (pool s)"
    and dc: "draggedCandidateItem s = Some I"
    and dt: "draggedTierItem s = None"
  shows "I \<notin> set (pool (handleDropOnTierList h T s))
       \<and> I \<in> set (itemsOfTier (handleDropOnTierList h T s) (Tier.label T))
       \<and> (\<forall>t \<in> set (tierlist (handleDropOnTierList h T s)).
            Tier.label t \<noteq> Tier.label T \<longrightarrow> I \<notin> set (items t))
       \<and> length (allItems (handleDropOnTierList h T s)) = length (allItems s)
       \<and> mset (allItems (handleDropOnTierList h T s)) = mset (allItems s)
       \<and> draggedCandidateItem (handleDropOnTierList h T s) = None
       \<and> map Tier.label (tierlist (handleDropOnTierList h T s)) = map Tier.label (tierlist s)"
proof -
  let ?s' = "handleDropOnTierList h T s"
  obtain pre post where ts: "tierlist s = pre @ T # post"
    and pre: "T \<notin> set pre" and post: "T \<notin> set post"
    and lpre: "Tier.label T \<notin> Tier.label ` set pre"
    and lpost: "Tier.label T \<notin> Tier.label ` set post"
    using tier_split [OF labels T] by blast
  have s': "?s' = moveCandidateItemToTier s T I s"
    by (simp add: handleDropOnTierList_def dc dt)
  from once have dT: "distinct (items T)" and nT: "I \<notin> set (items T)"
    and nother: "I \<notin> set (concat (map items pre))" "I \<notin> set (concat (map items post))"
    and dpool: "distinct (pool s)"
    using I by (auto simp: allItems_def tierItems_def ts)
  let ?T' = "T\<lparr>items := items T @ [I]\<rparr>"
  have tl': "tierlist ?s' = pre @ ?T' # post"
    using map_if_label [OF labels T, of "\<lambda>t. addItemToTier t I"]
    by (simp add: s' tierlist_moveCandidateItemToTier ts map_if_split [OF pre post]
          addItemToTier_new [OF dT nT] del: map_append)
  have pool': "pool ?s' = Set_delete (pool s) I"
    by (simp add: s' pool_moveCandidateItemToTier)
  have lT': "Tier.label ?T' = Tier.label T" by simp
  have 1: "I \<notin> set (pool ?s')"
    by (simp add: pool' Set_delete_def)
  have 2: "I \<in> set (itemsOfTier ?s' (Tier.label T))"
    using itemsOfTier_split [of ?s' pre ?T' post] lpre tl' by simp
  have 3: "\<forall>t \<in> set (tierlist ?s'). Tier.label t \<noteq> Tier.label T \<longrightarrow> I \<notin> set (items t)"
    using nother by (auto simp: tl')
  have 5: "mset (allItems ?s') = mset (allItems s)"
    using mset_Set_delete [OF dpool I]
    by (simp add: allItems_def tierItems_def tl' ts pool')
  then have "size (mset (allItems ?s')) = size (mset (allItems s))" by simp
  then have 4: "length (allItems ?s') = length (allItems s)" by simp
  have 6: "draggedCandidateItem ?s' = None"
    by (simp add: s' moveCandidateItemToTier_def removeItemFromCandidatelist_def Let_def)
  have 7: "map Tier.label (tierlist ?s') = map Tier.label (tierlist s)"
    by (simp add: tl' ts)
  from 1 2 3 4 5 6 7 show ?thesis by blast
qed

theorem C1_witness:
  "1 \<in> set (pool (dragCandidateItem 1 seed))
   \<and> 1 \<notin> set (pool (handleDropOnTierList seedItems tierA (dragCandidateItem 1 seed)))
   \<and> 1 \<in> set (itemsOfTier (handleDropOnTierList seedItems tierA (dragCandidateItem 1 seed)) ''A'')
   \<and> length (allItems (handleDropOnTierList seedItems tierA (dragCandidateItem 1 seed))) = 4
   \<and> draggedCandidateItem (handleDropOnTierList seedItems tierA (dragCandidateItem 1 seed)) = None"
proof -
  let ?s = "dragCandidateItem 1 seed"
  have 1: "distinct (map Tier.label (tierlist ?s))"
    by (simp add: seed_defs handler_defs)
  have 2: "distinct (allItems ?s)"
    by (simp add: seed_defs handler_defs view_defs)
  have 3: "tierA \<in> set (tierlist ?s)"
    by (simp add: seed_def dragCandidateItem_def)
  have 4: "1 \<in> set (pool ?s)"
    by (simp add: seed_defs handler_defs view_defs)
  have 5: "draggedCandidateItem ?s = Some 1"
    by (simp add: dragCandidateItem_def)
  have 6: "draggedTierItem ?s = None"
    by (simp add: seed_def dragCandidateItem_def)
  have 7: "length (allItems ?s) = 4"
    by (simp add: seed_defs handler_defs view_defs)
  have 8: "Tier.label tierA = ''A''"
    by (simp add: tierA_def seedTier_def)
  from C1_pool_item_to_tier [OF 1 2 3 4 5 6, of seedItems] 4 7 8
  show ?thesis by simp
qed


subsection \<open>Replacing one tier of the list\<close>

lemma distinct_labels_distinct: "distinct (map Tier.label ts) \<Longrightarrow> distinct ts"
  by (simp add: distinct_map)

lemma replace_labels:
  assumes "Tier.label T' = Tier.label T"
  shows "map Tier.label (map (\<lambda>t. if t = T then T' else t) ts) = map Tier.label ts"
  using assms by (induction ts) auto


lemma replace_mset:
  assumes "distinct ts" "T \<in> set ts"
  shows "mset (concat (map items (map (\<lambda>t. if t = T then T' else t) ts))) + mset (items T)
       = mset (concat (map items ts)) + mset (items T')"
proof -
  from assms(2) obtain pre post where ts0: "ts = pre @ T # post"
    by (blast dest: split_list)
  with assms(1) have ts: "T \<notin> set pre" "T \<notin> set post"
    by simp_all
  have m: "map (\<lambda>t. if t = T then T' else t) ts = pre @ T' # post"
    unfolding ts0 by (rule map_if_split [OF ts])
  show ?thesis
    unfolding m unfolding ts0 by simp
qed

lemma replace_itemsOfTier:
  assumes "distinct (map Tier.label ts)" "T \<in> set ts" "Tier.label T' = Tier.label T"
    and "tierlist s' = map (\<lambda>t. if t = T then T' else t) ts"
  shows "itemsOfTier s' (Tier.label T) = items T'"
proof -
  obtain pre post where ts: "ts = pre @ T # post" "T \<notin> set pre" "T \<notin> set post"
    "Tier.label T \<notin> Tier.label ` set pre" "Tier.label T \<notin> Tier.label ` set post"
    by (rule tier_split [OF assms(1,2)])
  have m: "map (\<lambda>t. if t = T then T' else t) ts = pre @ T' # post"
    unfolding ts(1) by (rule map_if_split [OF ts(2,3)])
  have tl: "tierlist s' = pre @ T' # post"
    unfolding assms(4) by (rule m)
  have "Tier.label T' \<notin> Tier.label ` set pre"
    using ts(4) assms(3) by simp
  from itemsOfTier_split [OF tl this] show ?thesis
    by (simp add: assms(3))
qed

lemma replace_find:
  assumes "distinct (map Tier.label ts)" "T \<in> set ts" "Tier.label T' = Tier.label T"
  shows "List.find (\<lambda>t. Tier.label t = Tier.label T) (map (\<lambda>t. if t = T then T' else t) ts)
       = Some T'"
proof -
  obtain pre post where ts: "ts = pre @ T # post" "T \<notin> set pre" "T \<notin> set post"
    "Tier.label T \<notin> Tier.label ` set pre" "Tier.label T \<notin> Tier.label ` set post"
    by (rule tier_split [OF assms(1,2)])
  have m: "map (\<lambda>t. if t = T then T' else t) ts = pre @ T' # post"
    unfolding ts(1) by (rule map_if_split [OF ts(2,3)])
  have "Tier.label T' \<notin> Tier.label ` set pre"
    using ts(4) assms(3) by simp
  from find_label_split [OF this, of post] show ?thesis
    unfolding m by (simp add: assms(3))
qed

lemma replace_other_itemsOfTier:
  assumes "tierlist s' = map (\<lambda>t. if t = T then T' else t) ts"
    and "Tier.label T' = Tier.label T" "l \<noteq> Tier.label T"
  shows "List.find (\<lambda>t. Tier.label t = l) (tierlist s') = List.find (\<lambda>t. Tier.label t = l) ts"
  unfolding assms(1) using assms(2,3) by (induction ts) auto

lemma filter_label_Set_delete:
  assumes "distinct (labelsOf h xs)" "I \<in> set xs"
  shows "filter (\<lambda>i. Item.label (h i) \<noteq> Item.label (h I)) xs = Set_delete xs I"
proof -
  from assms(1) have "inj_on (\<lambda>i. Item.label (h i)) (set xs)"
    by (simp add: labelsOf_def distinct_map)
  then have "\<And>i. i \<in> set xs \<Longrightarrow> (Item.label (h i) \<noteq> Item.label (h I)) = (i \<noteq> I)"
    using assms(2) by (auto dest: inj_onD)
  then show ?thesis
    unfolding Set_delete_def by (intro filter_cong refl) simp
qed

lemma distinct_Set_delete: "distinct xs \<Longrightarrow> distinct (Set_delete xs x)"
  by (simp add: Set_delete_def)

lemma set_Set_delete: "set (Set_delete xs x) = set xs - {x}"
  by (auto simp: Set_delete_def)

lemma labelsOf_distinct: "distinct (labelsOf h xs) \<Longrightarrow> distinct xs"
  by (simp add: labelsOf_def distinct_map)

lemma removeItemFromTier_unique:
  assumes "distinct (labelsOf h (items A))" "I \<in> set (items A)"
  shows "removeItemFromTier h A I = A\<lparr>items := Set_delete (items A) I\<rparr>"
  using assms
  by (simp add: removeItemFromTier_def Let_def filter_label_Set_delete newSet_distinct_id
        distinct_Set_delete labelsOf_distinct)

lemma findOriginTier_unique:
  assumes "distinct (labelsOf h (concat (map items ts)))" "A \<in> set ts" "I \<in> set (items A)"
  shows "findOriginTier h ts I = Some A"
proof -
  from assms(2) obtain pre post where ts: "ts = pre @ A # post"
    by (auto dest: split_list)
  have in_A: "Item.label (h I) \<in> set (labelsOf h (items A))"
    using assms(3) by (auto simp: labelsOf_def)
  with assms(1) have "Item.label (h I) \<notin> set (labelsOf h (concat (map items pre)))"
    by (auto simp: ts labelsOf_append)
  from findOriginTier_split [OF this in_A] show ?thesis
    by (simp add: ts)
qed

lemma tier_labels_distinct_items:
  assumes "distinct (labelsOf h (concat (map items ts)))" "A \<in> set ts"
  shows "distinct (labelsOf h (items A))"
proof -
  from assms(2) obtain pre post where ts: "ts = pre @ A # post"
    by (auto dest: split_list)
  with assms(1) show ?thesis by (simp add: labelsOf_append)
qed


lemma tiers_disjoint:
  assumes "distinct (concat (map items ts))" "A \<in> set ts" "B \<in> set ts" "A \<noteq> B"
    "I \<in> set (items A)"
  shows "I \<notin> set (items B)"
proof -
  from assms(2) obtain pre post where ts: "ts = pre @ A # post"
    by (auto dest: split_list)
  with assms(3,4) have "B \<in> set pre \<or> B \<in> set post" by auto
  with assms(1,5) show ?thesis by (auto simp: ts)
qed



lemma label_removeItemFromTier: "Tier.label (removeItemFromTier h A I) = Tier.label A"
  by (simp add: removeItemFromTier_def Let_def)

lemma tierlist_moveTierItemToAnotherTier:
  assumes "findOriginTier h (tierlist s) I = Some A"
  shows "tierlist (moveTierItemToAnotherTier h s B I p)
       = map (\<lambda>t. if Tier.label t = Tier.label B then addItemToTier t I else t)
           (map (\<lambda>t. if Tier.label t = Tier.label A then removeItemFromTier h A I else t)
              (tierlist s))"
    and "draggedTierItem (moveTierItemToAnotherTier h s B I p) = None"
    and "draggedCandidateItem (moveTierItemToAnotherTier h s B I p) = draggedCandidateItem p"
    and "pool (moveTierItemToAnotherTier h s B I p) = pool p"
  by (simp_all add: moveTierItemToAnotherTier_def assms Let_def pool_def)

text \<open>
  Claim C2. In a state where each tier label names one tier and no two items of the
  tiers share a label, let item \<open>I\<close> be in tier \<open>A\<close> and be the tier-origin drag
  selection, with no pool-origin selection, and let \<open>B\<close> be another tier of the list.
  After the drop on \<open>B\<close>, \<open>I\<close> is not in the items of the tier labelled as \<open>A\<close> (which
  are the old ones without \<open>I\<close>), \<open>I\<close> is in the items of the tier labelled as \<open>B\<close>
  (the old ones, then \<open>I\<close>), the pool and the tiers hold as many items as before (indeed
  the same items), and the tier-origin selection is cleared. The tiers keep their labels
  and order.
\<close>

theorem C2_tier_item_to_other_tier:
  assumes labels: "distinct (map Tier.label (tierlist s))"
    and once: "distinct (labelsOf h (tierItems s))"
    and A: "A \<in> set (tierlist s)" and B: "B \<in> set (tierlist s)" and AB: "A \<noteq> B"
    and I: "I \<in> set (items A)"
    and dt: "draggedTierItem s = Some I"
    and dc: "draggedCandidateItem s = None"
  shows "I \<notin> set (itemsOfTier (handleDropOnTierList h B s) (Tier.label A))
       \<and> I \<in> set (itemsOfTier (handleDropOnTierList h B s) (Tier.label B))
       \<and> itemsOfTier (handleDropOnTierList h B s) (Tier.label A) = Set_delete (items A) I
       \<and> itemsOfTier (handleDropOnTierList h B s) (Tier.label B) = items B @ [I]
       \<and> length (allItems (handleDropOnTierList h B s)) = length (allItems s)
       \<and> mset (allItems (handleDropOnTierList h B s)) = mset (allItems s)
       \<and> draggedTierItem (handleDropOnTierList h B s) = None
       \<and> map Tier.label (tierlist (handleDropOnTierList h B s)) = map Tier.label (tierlist s)"
proof -
  let ?s' = "handleDropOnTierList h B s"
  let ?ts = "tierlist s"
  let ?A' = "A\<lparr>items := Set_delete (items A) I\<rparr>"
  let ?B' = "B\<lparr>items := items B @ [I]\<rparr>"
  let ?ts1 = "map (\<lambda>t. if t = A then ?A' else t) ?ts"
  let ?ts2 = "map (\<lambda>t. if t = B then ?B' else t) ?ts1"
  have dts: "distinct ?ts"
    using labels by (rule distinct_labels_distinct)
  have once': "distinct (labelsOf h (concat (map items ?ts)))"
    using once by (simp add: tierItems_def)
  have items_once: "distinct (concat (map items ?ts))"
    using once' by (rule labelsOf_distinct)
  have origin: "findOriginTier h ?ts I = Some A"
    using once' A I by (rule findOriginTier_unique)
  have dA: "distinct (labelsOf h (items A))"
    using once' A by (rule tier_labels_distinct_items)
  have rem: "removeItemFromTier h A I = ?A'"
    using dA I by (rule removeItemFromTier_unique)
  have nB: "I \<notin> set (items B)"
    using items_once A B AB I by (rule tiers_disjoint)
  have dB: "distinct (items B)"
    using tier_labels_distinct_items [OF once' B] by (rule labelsOf_distinct)
  have add: "addItemToTier B I = ?B'"
    using dB nB by (rule addItemToTier_new)
  have lAB: "Tier.label A \<noteq> Tier.label B"
    using label_eq_iff [OF labels B A] AB by simp
  have s': "?s' = moveTierItemToAnotherTier h s B I s"
    by (simp add: handleDropOnTierList_def dc dt)
  have ts1: "map (\<lambda>t. if Tier.label t = Tier.label A then removeItemFromTier h A I else t) ?ts = ?ts1"
    unfolding rem by (rule map_if_label [OF labels A])
  have l1: "map Tier.label ?ts1 = map Tier.label ?ts"
    by (rule replace_labels) simp
  have B1: "B \<in> set ?ts1"
    using B AB by (simp add: image_iff)
  have d1: "distinct (map Tier.label ?ts1)"
    using labels by (simp only: l1)
  have ts2: "map (\<lambda>t. if Tier.label t = Tier.label B then addItemToTier t I else t) ?ts1 = ?ts2"
    using map_if_label [OF d1 B1, of "\<lambda>t. addItemToTier t I"] by (simp only: add)
  have tl': "tierlist ?s' = ?ts2"
    by (simp only: s' tierlist_moveTierItemToAnotherTier(1) [OF origin] ts1 ts2)
  have l2: "map Tier.label ?ts2 = map Tier.label ?ts1"
    by (rule replace_labels) simp
  have itB: "itemsOfTier ?s' (Tier.label B) = items ?B'"
    by (rule replace_itemsOfTier [OF d1 B1 _ tl']) simp
  have fA: "List.find (\<lambda>t. Tier.label t = Tier.label A) (tierlist ?s')
      = List.find (\<lambda>t. Tier.label t = Tier.label A) ?ts1"
    by (rule replace_other_itemsOfTier [OF tl']) (simp_all add: lAB)
  have "List.find (\<lambda>t. Tier.label t = Tier.label A) ?ts1 = Some ?A'"
    by (rule replace_find [OF labels A]) simp
  then have itA: "itemsOfTier ?s' (Tier.label A) = items ?A'"
    unfolding itemsOfTier_def fA by simp
  have m1: "mset (concat (map items ?ts1)) + mset (items A)
          = mset (concat (map items ?ts)) + mset (items ?A')"
    using dts A by (rule replace_mset)
  have d1': "distinct ?ts1"
    using d1 by (rule distinct_labels_distinct)
  have m2: "mset (concat (map items ?ts2)) + mset (items B)
          = mset (concat (map items ?ts1)) + mset (items ?B')"
    using d1' B1 by (rule replace_mset)
  have mA: "add_mset I (mset (items ?A')) = mset (items A)"
    using mset_Set_delete [OF labelsOf_distinct [OF dA] I] by simp
  have "add_mset I (mset (concat (map items ?ts1)) + mset (items ?A'))
      = mset (concat (map items ?ts)) + mset (items ?A')"
    using m1 unfolding mA [symmetric] by simp
  then have e1: "add_mset I (mset (concat (map items ?ts1))) = mset (concat (map items ?ts))"
    by simp
  have "mset (concat (map items ?ts2)) + mset (items B)
      = add_mset I (mset (concat (map items ?ts1))) + mset (items B)"
    using m2 by simp
  then have e2: "mset (concat (map items ?ts2)) = add_mset I (mset (concat (map items ?ts1)))"
    by simp
  have mt: "mset (tierItems ?s') = mset (tierItems s)"
    unfolding tierItems_def tl' e2 e1 by (rule refl)
  have pool': "pool ?s' = pool s"
    by (simp only: s' tierlist_moveTierItemToAnotherTier(4) [OF origin])
  have 6: "mset (allItems ?s') = mset (allItems s)"
    by (simp add: allItems_def mt pool')
  then have "size (mset (allItems ?s')) = size (mset (allItems s))" by simp
  then have 5: "length (allItems ?s') = length (allItems s)" by simp
  have 7: "draggedTierItem ?s' = None"
    by (simp only: s' tierlist_moveTierItemToAnotherTier(2) [OF origin])
  have 8: "map Tier.label (tierlist ?s') = map Tier.label ?ts"
    by (simp only: tl' l2 l1)
  have 1: "I \<notin> set (itemsOfTier ?s' (Tier.label A))"
    by (simp add: itA set_Set_delete)
  have 2: "I \<in> set (itemsOfTier ?s' (Tier.label B))"
    by (simp add: itB)
  from 1 2 itA itB 5 6 7 8 show ?thesis by simp
qed

theorem C2_witness:
  "0 \<in> set (items tierS)
   \<and> 0 \<notin> set (itemsOfTier (handleDropOnTierList seedItems tierA (dragTierItem 0 seed)) ''S'')
   \<and> 0 \<in> set (itemsOfTier (handleDropOnTierList seedItems tierA (dragTierItem 0 seed)) ''A'')
   \<and> length (allItems (handleDropOnTierList seedItems tierA (dragTierItem 0 seed))) = 4
   \<and> draggedTierItem (handleDropOnTierList seedItems tierA (dragTierItem 0 seed)) = None"
proof -
  let ?s = "dragTierItem 0 seed"
  have 1: "distinct (map Tier.label (tierlist ?s))"
    by (simp add: seed_defs handler_defs)
  have 2: "distinct (labelsOf seedItems (tierItems ?s))"
    by (simp add: seed_defs handler_defs view_defs)
  have 3: "tierS \<in> set (tierlist ?s)"
    by (simp add: seed_def dragTierItem_def)
  have 4: "tierA \<in> set (tierlist ?s)"
    by (simp add: seed_def dragTierItem_def)
  have 5: "tierS \<noteq> tierA"
    by (simp add: seed_defs)
  have 6: "0 \<in> set (items tierS)"
    by (simp add: seed_defs)
  have 7: "draggedTierItem ?s = Some 0"
    by (simp add: dragTierItem_def)
  have 8: "draggedCandidateItem ?s = None"
    by (simp add: seed_def dragTierItem_def)
  have 9: "length (allItems ?s) = 4"
    by (simp add: seed_defs handler_defs view_defs)
  have 10: "Tier.label tierA = ''A''" "Tier.label tierS = ''S''"
    by (simp_all add: tierA_def tierS_def seedTier_def)
  from C2_tier_item_to_other_tier [OF 1 2 3 4 5 6 7 8] 6 9 10
  show ?thesis by (simp add: set_Set_delete)
qed

text \<open>
  Claim C7. In every state, the reset makes the pool hold exactly the items of the old
  pool and of all the tiers (each once), and leaves every tier with no items and
  otherwise as it was. From the first render, where tier S holds Vivo, the other tiers
  are empty and the pool holds Item 1, Item 2, Item 3, the reset gives the pool Item 1,
  Item 2, Item 3, Vivo and seven empty tiers.
\<close>

theorem C7_reset:
  "set (pool (resetList s)) = set (pool s) \<union> set (tierItems s)
   \<and> distinct (pool (resetList s))
   \<and> tierlist (resetList s) = map (\<lambda>t. t\<lparr>items := []\<rparr>) (tierlist s)
   \<and> tierItems (resetList s) = []
   \<and> pool seed = [1, 2, 3]
   \<and> map items (tierlist seed) = [[0], [], [], [], [], [], []]
   \<and> pool (resetList seed) = [1, 2, 3, 0]
   \<and> labelsOf seedItems (pool (resetList seed))
        = [Some ''Item 1'', Some ''Item 2'', Some ''Item 3'', Some ''Vivo'']
   \<and> map items (tierlist (resetList seed)) = [[], [], [], [], [], [], []]"
proof -
  have p: "pool (resetList s) = newSet (pool s @ tierItems s)"
    by (simp add: resetList_def pool_def tierItems_def Let_def foldl_append_items)
  have 1: "set (pool (resetList s)) = set (pool s) \<union> set (tierItems s)"
    by (simp add: p set_newSet)
  have 2: "distinct (pool (resetList s))"
    by (simp add: p distinct_newSet)
  have 3: "tierlist (resetList s) = map (\<lambda>t. t\<lparr>items := []\<rparr>) (tierlist s)"
    by (simp add: resetList_def Let_def newSet_Nil)
  have 4: "tierItems (resetList s) = []"
    by (simp add: tierItems_def 3 o_def)
  have 5: "pool seed = [1, 2, 3]"
    by (simp add: seed_defs view_defs)
  have 6: "map items (tierlist seed) = [[0], [], [], [], [], [], []]"
    by (simp add: seed_defs)
  have 7: "pool (resetList seed) = [1, 2, 3, 0]"
    by (simp add: seed_defs handler_defs view_defs)
  have 8: "labelsOf seedItems (pool (resetList seed))
        = [Some ''Item 1'', Some ''Item 2'', Some ''Item 3'', Some ''Vivo'']"
    by (simp add: 7 labelsOf_def seedItems_def)
  have 9: "map items (tierlist (resetList seed)) = [[], [], [], [], [], [], []]"
    by (simp add: seed_defs handler_defs)
  from 1 2 3 4 5 6 7 8 9 show ?thesis by blast
qed

text \<open>
  Claim C8. No handler has a failing path: each is a total function on states. Let the
  tier-origin selection be empty, or hold an item whose label no item of any tier has
  (the scan for the origin tier finds nothing). Then a drop on the pool changes nothing
  at all, whatever the pool-origin selection is (so a pool-origin drop on the pool
  changes nothing); and a drop on a tier changes nothing at all when the pool-origin
  selection is empty too. The state that stays the same includes the pool, its set
  object, all tiers and both drag selections.
\<close>

theorem C8_unsatisfied_precondition_is_noop:
  assumes "draggedTierItem s = None
         \<or> (\<exists>i. draggedTierItem s = Some i
                \<and> Item.label (h i) \<notin> set (labelsOf h (tierItems s)))"
  shows "handleDropOnCandidateList h s = s
       \<and> (draggedCandidateItem s = None \<longrightarrow> handleDropOnTierList h T s = s)"
  using assms
  by (auto simp: handleDropOnCandidateList_def handleDropOnTierList_def
        moveTierItemToAnotherTier_def findOriginTier_None [symmetric] tierItems_def)

theorem C8_witness:
  "handleDropOnCandidateList seedItems seed = seed
   \<and> handleDropOnTierList seedItems tierA seed = seed
   \<and> handleDropOnCandidateList seedItems (dragCandidateItem 1 seed) = dragCandidateItem 1 seed
   \<and> draggedTierItem (resetList (dragTierItem 0 seed)) = Some 0
   \<and> handleDropOnCandidateList seedItems (resetList (dragTierItem 0 seed))
        = resetList (dragTierItem 0 seed)
   \<and> handleDropOnTierList seedItems tierA (resetList (dragTierItem 0 seed))
        = resetList (dragTierItem 0 seed)"
proof -
  let ?s1 = "dragCandidateItem 1 seed"
  let ?s2 = "resetList (dragTierItem 0 seed)"
  have a0: "draggedTierItem seed = None" and b0: "draggedCandidateItem seed = None"
    by (simp_all add: seed_def)
  have a1: "draggedTierItem ?s1 = None"
    by (simp add: seed_def dragCandidateItem_def)
  have a2: "draggedTierItem ?s2 = Some 0" and b2: "draggedCandidateItem ?s2 = None"
    by (simp_all add: seed_def dragTierItem_def resetList_def Let_def)
  have "labelsOf seedItems (tierItems ?s2) = []"
    by (simp add: seed_defs handler_defs view_defs)
  with a2 have c2: "draggedTierItem ?s2 = None
         \<or> (\<exists>i. draggedTierItem ?s2 = Some i
                \<and> Item.label (seedItems i) \<notin> set (labelsOf seedItems (tierItems ?s2)))"
    by simp
  from C8_unsatisfied_precondition_is_noop [of seed seedItems tierA]
       C8_unsatisfied_precondition_is_noop [of ?s1 seedItems tierA]
       C8_unsatisfied_precondition_is_noop [OF c2, of tierA]
       a0 b0 a1 a2 b2
  show ?thesis by simp
qed

lemma replace_twice:
  assumes "distinct (map Tier.label ts)" "T \<in> set ts" "Tier.label T' = Tier.label T"
  shows "map (\<lambda>t. if t = T' then T'' else t) (map (\<lambda>t. if t = T then T' else t) ts)
       = map (\<lambda>t. if t = T then T'' else t) ts"
proof -
  obtain pre post where ts: "ts = pre @ T # post" "T \<notin> set pre" "T \<notin> set post"
    "Tier.label T \<notin> Tier.label ` set pre" "Tier.label T \<notin> Tier.label ` set post"
    by (rule tier_split [OF assms(1,2)])
  have T': "T' \<notin> set pre" "T' \<notin> set post"
    using ts(4,5) assms(3) by (metis image_eqI)+
  have "map (\<lambda>t. if t = T then T' else t) ts = pre @ T' # post"
    unfolding ts(1) by (rule map_if_split [OF ts(2,3)])
  moreover have "map (\<lambda>t. if t = T' then T'' else t) (pre @ T' # post) = pre @ T'' # post"
    by (rule map_if_split [OF T'])
  moreover have "map (\<lambda>t. if t = T then T'' else t) ts = pre @ T'' # post"
    unfolding ts(1) by (rule map_if_split [OF ts(2,3)])
  ultimately show ?thesis by simp
qed

text \<open>
  Claim C6. In a state where each tier label names one tier and no two items of the
  tiers share a label, let item \<open>I\<close> be in tier \<open>T\<close> and be the tier-origin drag
  selection, with no pool-origin selection. After the drop on \<open>T\<close> itself the tier list
  is the old one except that \<open>T\<close> has \<open>I\<close> moved to the end of its items: the tier
  labelled as \<open>T\<close> holds the same items, each as often as before, and \<open>I\<close> exactly once;
  every other tier is unchanged; the pool, its set object and the pool-origin selection
  are unchanged.
\<close>

theorem C6_drop_on_own_tier:
  assumes labels: "distinct (map Tier.label (tierlist s))"
    and once: "distinct (labelsOf h (tierItems s))"
    and T: "T \<in> set (tierlist s)"
    and I: "I \<in> set (items T)"
    and dt: "draggedTierItem s = Some I"
    and dc: "draggedCandidateItem s = None"
  shows "tierlist (handleDropOnTierList h T s)
           = map (\<lambda>t. if t = T then T\<lparr>items := Set_delete (items T) I @ [I]\<rparr> else t) (tierlist s)
       \<and> mset (itemsOfTier (handleDropOnTierList h T s) (Tier.label T)) = mset (items T)
       \<and> set (itemsOfTier (handleDropOnTierList h T s) (Tier.label T)) = set (items T)
       \<and> count_list (itemsOfTier (handleDropOnTierList h T s) (Tier.label T)) I = 1
       \<and> pool (handleDropOnTierList h T s) = pool s
       \<and> candidatelist (handleDropOnTierList h T s) = candidatelist s
       \<and> setHeap (handleDropOnTierList h T s) = setHeap s
       \<and> draggedCandidateItem (handleDropOnTierList h T s) = draggedCandidateItem s"
proof -
  let ?s' = "handleDropOnTierList h T s"
  let ?ts = "tierlist s"
  let ?T' = "T\<lparr>items := Set_delete (items T) I\<rparr>"
  let ?T'' = "T\<lparr>items := Set_delete (items T) I @ [I]\<rparr>"
  let ?ts1 = "map (\<lambda>t. if t = T then ?T' else t) ?ts"
  have once': "distinct (labelsOf h (concat (map items ?ts)))"
    using once by (simp add: tierItems_def)
  have origin: "findOriginTier h ?ts I = Some T"
    using once' T I by (rule findOriginTier_unique)
  have dT: "distinct (labelsOf h (items T))"
    using once' T by (rule tier_labels_distinct_items)
  have dT': "distinct (items T)"
    using dT by (rule labelsOf_distinct)
  have rem: "removeItemFromTier h T I = ?T'"
    using dT I by (rule removeItemFromTier_unique)
  have add: "addItemToTier ?T' I = ?T''"
    using addItemToTier_new [of ?T' I] dT' by (simp add: distinct_Set_delete set_Set_delete)
  have s': "?s' = moveTierItemToAnotherTier h s T I s"
    by (simp add: handleDropOnTierList_def dc dt)
  have ts1: "map (\<lambda>t. if Tier.label t = Tier.label T then removeItemFromTier h T I else t) ?ts = ?ts1"
    unfolding rem by (rule map_if_label [OF labels T])
  have l1: "map Tier.label ?ts1 = map Tier.label ?ts"
    by (rule replace_labels) simp
  have d1: "distinct (map Tier.label ?ts1)"
    using labels by (simp only: l1)
  have T1: "?T' \<in> set ?ts1"
    using T by (simp add: image_iff)
  have lT': "Tier.label ?T' = Tier.label T" by simp
  have "map (\<lambda>t. if Tier.label t = Tier.label ?T' then addItemToTier t I else t) ?ts1
      = map (\<lambda>t. if t = ?T' then addItemToTier ?T' I else t) ?ts1"
    by (rule map_if_label [OF d1 T1])
  then have ts2: "map (\<lambda>t. if Tier.label t = Tier.label T then addItemToTier t I else t) ?ts1
      = map (\<lambda>t. if t = T then ?T'' else t) ?ts"
    unfolding lT' add by (simp only: replace_twice [OF labels T lT'])
  have 1: "tierlist ?s' = map (\<lambda>t. if t = T then ?T'' else t) ?ts"
    by (simp only: s' tierlist_moveTierItemToAnotherTier(1) [OF origin] ts1 ts2)
  have it: "itemsOfTier ?s' (Tier.label T) = items ?T''"
    by (rule replace_itemsOfTier [OF labels T _ 1]) simp
  have m: "add_mset I (mset (Set_delete (items T) I)) = mset (items T)"
    using dT' I by (rule mset_Set_delete)
  have 2: "mset (itemsOfTier ?s' (Tier.label T)) = mset (items T)"
    using m by (simp add: it)
  have 3: "set (itemsOfTier ?s' (Tier.label T)) = set (items T)"
    using 2 by (rule mset_eq_setD)
  have 4: "count_list (itemsOfTier ?s' (Tier.label T)) I = 1"
    by (simp add: it set_Set_delete)
  have 5: "pool ?s' = pool s"
    by (simp only: s' tierlist_moveTierItemToAnotherTier(4) [OF origin])
  have 6: "candidatelist ?s' = candidatelist s" "setHeap ?s' = setHeap s"
    "draggedCandidateItem ?s' = draggedCandidateItem s"
    by (simp_all add: s' moveTierItemToAnotherTier_def origin Let_def)
  from 1 2 3 4 5 6 show ?thesis by simp
qed



theorem C6_witness:
  "0 \<in> set (items tierS)
   \<and> tierlist (handleDropOnTierList seedItems tierS (dragTierItem 0 seed)) = tierlist seed
   \<and> itemsOfTier (handleDropOnTierList seedItems tierS (dragTierItem 0 seed)) ''S'' = [0]
   \<and> pool (handleDropOnTierList seedItems tierS (dragTierItem 0 seed)) = [1, 2, 3]"
proof -
  let ?s = "dragTierItem 0 seed"
  have 1: "distinct (map Tier.label (tierlist ?s))"
    by (simp add: seed_defs handler_defs)
  have 2: "distinct (labelsOf seedItems (tierItems ?s))"
    by (simp add: seed_defs handler_defs view_defs)
  have 3: "tierS \<in> set (tierlist ?s)"
    by (simp add: seed_def dragTierItem_def)
  have 4: "0 \<in> set (items tierS)"
    by (simp add: seed_defs)
  have 5: "draggedTierItem ?s = Some 0"
    by (simp add: dragTierItem_def)
  have 6: "draggedCandidateItem ?s = None"
    by (simp add: seed_def dragTierItem_def)
  have 7: "pool ?s = [1, 2, 3]"
    by (simp add: seed_defs handler_defs view_defs)
  have 8: "Tier.label tierS = ''S''" "items tierS = [0]"
    by (simp_all add: seed_defs)
  have 9: "tierlist ?s = tierlist seed" "tierlist seed = [tierS, tierA, tierB, tierC, tierD, tierE, tierF]"
    by (simp_all add: seed_def dragTierItem_def)
  have 10: "tierS\<lparr>items := [0]\<rparr> = tierS"
    by (simp add: seed_defs)
  have 11: "tierA \<noteq> tierS" "tierB \<noteq> tierS" "tierC \<noteq> tierS" "tierD \<noteq> tierS"
    "tierE \<noteq> tierS" "tierF \<noteq> tierS"
    by (simp_all add: seed_defs)
  have 12: "itemsOfTier (handleDropOnTierList seedItems tierS ?s) ''S'' = [0]"
    by (simp add: seed_defs handler_defs view_defs)
  from C6_drop_on_own_tier [OF 1 2 3 4 5 6] 4 7 8 9 10 11 12
  show ?thesis by (simp add: Set_delete_def)
qed

lemma set_removeItemFromTier:
  "set (items (removeItemFromTier h A I))
     = {i \<in> set (items A). Item.label (h i) \<noteq> Item.label (h I)}"
  by (simp add: removeItemFromTier_def Let_def set_newSet)

text \<open>
  Claim C10. Let \<open>I\<close> be the pool-origin drag selection, with no tier-origin selection,
  and let the pool hold an item \<open>J\<close> that has the label of \<open>I\<close> but is another object.
  After the drop on a tier \<open>T\<close> of a list with unique tier labels: \<open>J\<close> is still in the
  pool, whose items are the old ones without the object \<open>I\<close>; the state holds the same
  set object for the pool as before, and it is that object whose elements have changed
  (no set object was created); the tier labelled as \<open>T\<close> holds the set built from its old
  items followed by \<open>I\<close>. Removing \<open>I\<close> from a tier \<open>A\<close> instead returns a tier whose
  items are those of \<open>A\<close> with a label other than that of \<open>I\<close>, so neither \<open>I\<close> nor \<open>J\<close> is
  among them; it is a function of the tier and the item alone and touches no set object.
\<close>

theorem C10_pool_removal_by_reference_tier_removal_by_label:
  assumes labels: "distinct (map Tier.label (tierlist s))"
    and T: "T \<in> set (tierlist s)"
    and dc: "draggedCandidateItem s = Some I"
    and dt: "draggedTierItem s = None"
    and J: "J \<in> set (pool s)"
    and same: "Item.label (h J) = Item.label (h I)"
    and other: "J \<noteq> I"
  shows "J \<in> set (pool (handleDropOnTierList h T s))
       \<and> I \<notin> set (pool (handleDropOnTierList h T s))
       \<and> pool (handleDropOnTierList h T s) = Set_delete (pool s) I
       \<and> candidatelist (handleDropOnTierList h T s) = candidatelist s
       \<and> setHeap (handleDropOnTierList h T s)
            = (setHeap s)(candidatelist s := Set_delete (setHeap s (candidatelist s)) I)
       \<and> nextSetref (handleDropOnTierList h T s) = nextSetref s
       \<and> itemsOfTier (handleDropOnTierList h T s) (Tier.label T) = newSet (items T @ [I])
       \<and> I \<in> set (itemsOfTier (handleDropOnTierList h T s) (Tier.label T))
       \<and> set (items (removeItemFromTier h A I))
            = {i \<in> set (items A). Item.label (h i) \<noteq> Item.label (h I)}
       \<and> J \<notin> set (items (removeItemFromTier h A I))
       \<and> I \<notin> set (items (removeItemFromTier h A I))"
proof -
  let ?s' = "handleDropOnTierList h T s"
  have s': "?s' = moveCandidateItemToTier s T I s"
    by (simp add: handleDropOnTierList_def dc dt)
  have 3: "pool ?s' = Set_delete (pool s) I"
    by (simp only: s' pool_moveCandidateItemToTier)
  have 1: "J \<in> set (pool ?s')"
    using J other by (simp add: 3 set_Set_delete)
  have 2: "I \<notin> set (pool ?s')"
    by (simp add: 3 set_Set_delete)
  have 4: "candidatelist ?s' = candidatelist s"
    "setHeap ?s' = (setHeap s)(candidatelist s := Set_delete (setHeap s (candidatelist s)) I)"
    "nextSetref ?s' = nextSetref s"
    by (simp_all add: s' moveCandidateItemToTier_def removeItemFromCandidatelist_def Let_def)
  have "tierlist ?s' = map (\<lambda>t. if t = T then addItemToTier T I else t) (tierlist s)"
    unfolding s' tierlist_moveCandidateItemToTier by (rule map_if_label [OF labels T])
  then have "itemsOfTier ?s' (Tier.label T) = items (addItemToTier T I)"
    by (rule replace_itemsOfTier [OF labels T label_addItemToTier])
  then have 5: "itemsOfTier ?s' (Tier.label T) = newSet (items T @ [I])"
    by (simp add: addItemToTier_def)
  have 6: "I \<in> set (itemsOfTier ?s' (Tier.label T))"
    by (simp add: 5 set_newSet)
  have 7: "set (items (removeItemFromTier h A I))
            = {i \<in> set (items A). Item.label (h i) \<noteq> Item.label (h I)}"
    by (rule set_removeItemFromTier)
  have 8: "J \<notin> set (items (removeItemFromTier h A I))" "I \<notin> set (items (removeItemFromTier h A I))"
    using same by (simp_all add: 7)
  from 1 2 3 4 5 6 7 8 show ?thesis by simp
qed

theorem C10_witness:
  "2 \<in> set (pool (dragCandidateItem 1 seed))
   \<and> Item.label (twinItems 2) = Item.label (twinItems 1)
   \<and> pool (handleDropOnTierList twinItems tierA (dragCandidateItem 1 seed)) = [2, 3]
   \<and> candidatelist (handleDropOnTierList twinItems tierA (dragCandidateItem 1 seed)) = 0
   \<and> itemsOfTier (handleDropOnTierList twinItems tierA (dragCandidateItem 1 seed)) ''A'' = [1]
   \<and> 2 \<notin> set (items (removeItemFromTier twinItems (tierA\<lparr>items := [1, 2]\<rparr>) 1))"
proof -
  let ?s = "dragCandidateItem 1 seed"
  have 1: "distinct (map Tier.label (tierlist ?s))"
    by (simp add: seed_defs handler_defs)
  have 2: "tierA \<in> set (tierlist ?s)"
    by (simp add: seed_def dragCandidateItem_def)
  have 3: "draggedCandidateItem ?s = Some 1"
    by (simp add: dragCandidateItem_def)
  have 4: "draggedTierItem ?s = None"
    by (simp add: seed_def dragCandidateItem_def)
  have 5: "2 \<in> set (pool ?s)"
    by (simp add: seed_defs handler_defs view_defs)
  have 6: "Item.label (twinItems 2) = Item.label (twinItems 1)"
    by (simp add: twinItems_def)
  have 7: "(2::nat) \<noteq> 1"
    by simp
  have 8: "pool ?s = [1, 2, 3]" "candidatelist ?s = 0"
    by (simp_all add: seed_defs handler_defs view_defs)
  have 9: "Tier.label tierA = ''A''" "items tierA = []"
    by (simp_all add: seed_defs)
  from C10_pool_removal_by_reference_tier_removal_by_label
         [OF 1 2 3 4 5 6 7, of "tierA\<lparr>items := [1, 2]\<rparr>"] 5 6 8 9
  show ?thesis by (simp add: Set_delete_def newSet_def Set_add_def)
qed


subsection \<open>Well-formed states are kept by every call\<close>

lemma mset_labelsOf: "mset (labelsOf h xs) = image_mset (\<lambda>i. Item.label (h i)) (mset xs)"
  by (simp add: labelsOf_def)

lemma distinct_submset:
  assumes "mset ys \<subseteq># mset xs" "distinct xs"
  shows "distinct ys"
proof -
  from assms(1) obtain Z where "mset xs = mset ys + Z"
    by (auto simp: mset_subset_eq_exists_conv)
  moreover obtain zs where "Z = mset zs"
    by (metis ex_mset)
  ultimately have "mset xs = mset (ys @ zs)" by simp
  with assms(2) have "distinct (ys @ zs)"
    by (metis mset_eq_imp_distinct_iff)
  then show ?thesis by simp
qed

lemma distinct_add_mset:
  assumes "add_mset x (mset ys) = mset xs" "distinct xs"
  shows "distinct ys" "x \<notin> set ys"
proof -
  from assms(1) have "mset (x # ys) = mset xs" by simp
  with assms(2) have "distinct (x # ys)"
    by (metis mset_eq_imp_distinct_iff)
  then show "distinct ys" "x \<notin> set ys" by simp_all
qed

lemma remove_step:
  assumes labels: "distinct (map Tier.label ts)"
    and once: "distinct (labelsOf h (concat (map items ts)))"
    and A: "A \<in> set ts" and I: "I \<in> set (items A)"
  shows "add_mset I (mset (concat (map items
            (map (\<lambda>t. if Tier.label t = Tier.label A then removeItemFromTier h A I else t) ts))))
         = mset (concat (map items ts))"
    and "map Tier.label
            (map (\<lambda>t. if Tier.label t = Tier.label A then removeItemFromTier h A I else t) ts)
         = map Tier.label ts"
proof -
  let ?A' = "A\<lparr>items := Set_delete (items A) I\<rparr>"
  let ?ts1 = "map (\<lambda>t. if t = A then ?A' else t) ts"
  have dA: "distinct (labelsOf h (items A))"
    using once A by (rule tier_labels_distinct_items)
  have rem: "removeItemFromTier h A I = ?A'"
    using dA I by (rule removeItemFromTier_unique)
  have ts1: "map (\<lambda>t. if Tier.label t = Tier.label A then removeItemFromTier h A I else t) ts = ?ts1"
    unfolding rem by (rule map_if_label [OF labels A])
  have m1: "mset (concat (map items ?ts1)) + mset (items A)
          = mset (concat (map items ts)) + mset (items ?A')"
    using distinct_labels_distinct [OF labels] A by (rule replace_mset)
  have mA: "add_mset I (mset (items ?A')) = mset (items A)"
    using mset_Set_delete [OF labelsOf_distinct [OF dA] I] by simp
  have "add_mset I (mset (concat (map items ?ts1)) + mset (items ?A'))
      = mset (concat (map items ts)) + mset (items ?A')"
    using m1 unfolding mA [symmetric] by simp
  then have "add_mset I (mset (concat (map items ?ts1))) = mset (concat (map items ts))"
    by simp
  then show "add_mset I (mset (concat (map items
            (map (\<lambda>t. if Tier.label t = Tier.label A then removeItemFromTier h A I else t) ts))))
         = mset (concat (map items ts))"
    by (simp only: ts1)
  have "map Tier.label ?ts1 = map Tier.label ts"
    by (rule replace_labels) simp
  then show "map Tier.label
            (map (\<lambda>t. if Tier.label t = Tier.label A then removeItemFromTier h A I else t) ts)
         = map Tier.label ts"
    by (simp only: ts1)
qed

lemma add_step:
  assumes labels: "distinct (map Tier.label ts)"
    and once: "distinct (concat (map items ts))"
    and L: "L \<in> set (map Tier.label ts)"
    and I: "I \<notin> set (concat (map items ts))"
  shows "mset (concat (map items
            (map (\<lambda>t. if Tier.label t = L then addItemToTier t I else t) ts)))
         = add_mset I (mset (concat (map items ts)))"
    and "map Tier.label (map (\<lambda>t. if Tier.label t = L then addItemToTier t I else t) ts)
         = map Tier.label ts"
proof -
  from L obtain X where X: "X \<in> set ts" and LX: "L = Tier.label X"
    by auto
  let ?X' = "X\<lparr>items := items X @ [I]\<rparr>"
  let ?ts1 = "map (\<lambda>t. if t = X then ?X' else t) ts"
  from X obtain pre post where ts: "ts = pre @ X # post"
    by (blast dest: split_list)
  have dX: "distinct (items X)" and nX: "I \<notin> set (items X)"
    using once I by (simp_all add: ts)
  have add: "addItemToTier X I = ?X'"
    using dX nX by (rule addItemToTier_new)
  have ts1: "map (\<lambda>t. if Tier.label t = L then addItemToTier t I else t) ts = ?ts1"
    unfolding LX using map_if_label [OF labels X, of "\<lambda>t. addItemToTier t I"]
    by (simp only: add)
  have "mset (concat (map items ?ts1)) + mset (items X)
          = mset (concat (map items ts)) + mset (items ?X')"
    using distinct_labels_distinct [OF labels] X by (rule replace_mset)
  then have "mset (concat (map items ?ts1)) + mset (items X)
          = add_mset I (mset (concat (map items ts))) + mset (items X)"
    by simp
  then have "mset (concat (map items ?ts1)) = add_mset I (mset (concat (map items ts)))"
    by simp
  then show "mset (concat (map items
            (map (\<lambda>t. if Tier.label t = L then addItemToTier t I else t) ts)))
         = add_mset I (mset (concat (map items ts)))"
    by (simp only: ts1)
  have "map Tier.label ?ts1 = map Tier.label ts"
    by (rule replace_labels) simp
  then show "map Tier.label (map (\<lambda>t. if Tier.label t = L then addItemToTier t I else t) ts)
         = map Tier.label ts"
    by (simp only: ts1)
qed


lemma wellFormedI:
  assumes "distinct (map Tier.label (tierlist s))"
    and "distinct (labelsOf h (allItems s))"
    and "\<And>i. draggedCandidateItem s = Some i \<Longrightarrow> i \<in> set (pool s)"
    and "\<And>i. draggedTierItem s = Some i \<Longrightarrow> i \<in> set (allItems s)"
  shows "wellFormed h s"
  using assms by (simp add: wellFormed_def split: option.split)

lemma wellFormedD:
  assumes "wellFormed h s"
  shows "distinct (map Tier.label (tierlist s))"
    and "distinct (labelsOf h (allItems s))"
    and "distinct (allItems s)"
    and "distinct (labelsOf h (tierItems s))"
    and "distinct (tierItems s)"
    and "distinct (pool s)"
    and "draggedCandidateItem s = Some i \<Longrightarrow> i \<in> set (pool s)"
    and "draggedTierItem s = Some j \<Longrightarrow> j \<in> set (allItems s)"
proof -
  from assms show 1: "distinct (map Tier.label (tierlist s))"
    and 2: "distinct (labelsOf h (allItems s))"
    by (simp_all add: wellFormed_def)
  from 2 show 3: "distinct (allItems s)" by (rule labelsOf_distinct)
  from 2 show 4: "distinct (labelsOf h (tierItems s))"
    by (simp add: allItems_def labelsOf_append)
  from 4 show "distinct (tierItems s)" by (rule labelsOf_distinct)
  from 3 show "distinct (pool s)" by (simp add: allItems_def)
  from assms show "draggedCandidateItem s = Some i \<Longrightarrow> i \<in> set (pool s)"
    by (simp add: wellFormed_def)
  from assms show "draggedTierItem s = Some j \<Longrightarrow> j \<in> set (allItems s)"
    by (simp add: wellFormed_def)
qed

text \<open>In a well-formed state the scan for the origin tier finds the tier that holds the dragged item itself.\<close>

lemma origin_holds_item:
  assumes wf: "wellFormed h s" and dt: "draggedTierItem s = Some J"
    and origin: "findOriginTier h (tierlist s) J = Some A"
  shows "A \<in> set (tierlist s)" and "J \<in> set (items A)"
proof -
  from origin have "findOriginTier h (tierlist s) J \<noteq> None" by simp
  then have l: "Item.label (h J) \<in> set (labelsOf h (tierItems s))"
    by (simp add: findOriginTier_None tierItems_def)
  have "J \<in> set (allItems s)"
    using wf dt by (rule wellFormedD(8))
  moreover have "J \<notin> set (pool s)"
  proof
    assume "J \<in> set (pool s)"
    then have "Item.label (h J) \<in> set (labelsOf h (pool s))"
      by (simp add: labelsOf_def)
    with l wellFormedD(2) [OF wf] show False
      by (auto simp: allItems_def labelsOf_append)
  qed
  ultimately have "J \<in> set (tierItems s)"
    by (simp add: allItems_def)
  then obtain B where B: "B \<in> set (tierlist s)" "J \<in> set (items B)"
    by (auto simp: tierItems_def)
  have "distinct (labelsOf h (concat (map items (tierlist s))))"
    using wellFormedD(4) [OF wf] by (simp add: tierItems_def)
  from findOriginTier_unique [OF this B] origin have "A = B" by simp
  with B show "A \<in> set (tierlist s)" and "J \<in> set (items A)" by simp_all
qed

text \<open>The items in the tiers after the two maps of a tier-to-tier move.\<close>

lemma move_steps:
  assumes wf: "wellFormed h s" and A: "A \<in> set (tierlist s)" and J: "J \<in> set (items A)"
    and T: "T \<in> set (tierlist s)"
  shows "mset (concat (map items
           (map (\<lambda>t. if Tier.label t = Tier.label T then addItemToTier t J else t)
             (map (\<lambda>t. if Tier.label t = Tier.label A then removeItemFromTier h A J else t)
                (tierlist s)))))
         = mset (tierItems s)"
    and "map Tier.label
           (map (\<lambda>t. if Tier.label t = Tier.label T then addItemToTier t J else t)
             (map (\<lambda>t. if Tier.label t = Tier.label A then removeItemFromTier h A J else t)
                (tierlist s)))
         = map Tier.label (tierlist s)"
proof -
  let ?ts = "tierlist s"
  let ?ts1 = "map (\<lambda>t. if Tier.label t = Tier.label A then removeItemFromTier h A J else t) ?ts"
  have labels: "distinct (map Tier.label ?ts)"
    using wf by (rule wellFormedD(1))
  have once: "distinct (labelsOf h (concat (map items ?ts)))"
    using wellFormedD(4) [OF wf] by (simp add: tierItems_def)
  have r1: "add_mset J (mset (concat (map items ?ts1))) = mset (concat (map items ?ts))"
    and r2: "map Tier.label ?ts1 = map Tier.label ?ts"
    using labels once A J by (rule remove_step)+
  have d: "distinct (concat (map items ?ts))"
    using once by (rule labelsOf_distinct)
  have d1: "distinct (concat (map items ?ts1))" and n1: "J \<notin> set (concat (map items ?ts1))"
    using r1 d by (rule distinct_add_mset)+
  have l1: "distinct (map Tier.label ?ts1)"
    using labels by (simp only: r2)
  have L: "Tier.label T \<in> set (map Tier.label ?ts1)"
    using T unfolding r2 by simp
  have a1: "mset (concat (map items
            (map (\<lambda>t. if Tier.label t = Tier.label T then addItemToTier t J else t) ?ts1)))
         = add_mset J (mset (concat (map items ?ts1)))"
    and a2: "map Tier.label (map (\<lambda>t. if Tier.label t = Tier.label T then addItemToTier t J else t) ?ts1)
         = map Tier.label ?ts1"
    using l1 d1 L n1 by (rule add_step)+
  show "mset (concat (map items
           (map (\<lambda>t. if Tier.label t = Tier.label T then addItemToTier t J else t) ?ts1)))
         = mset (tierItems s)"
    unfolding a1 r1 tierItems_def by (rule refl)
  show "map Tier.label
           (map (\<lambda>t. if Tier.label t = Tier.label T then addItemToTier t J else t) ?ts1)
         = map Tier.label ?ts"
    unfolding a2 r2 by (rule refl)
qed


lemma wellFormed_step:
  assumes wf: "wellFormed h s"
    and labels: "map Tier.label (tierlist s') = map Tier.label (tierlist s)"
    and sub: "mset (allItems s') \<subseteq># mset (allItems s)"
    and dc: "\<And>i. draggedCandidateItem s' = Some i \<Longrightarrow> i \<in> set (pool s')"
    and dt: "\<And>i. draggedTierItem s' = Some i \<Longrightarrow> i \<in> set (allItems s')"
  shows "wellFormed h s'"
proof (rule wellFormedI)
  show "distinct (map Tier.label (tierlist s'))"
    using wellFormedD(1) [OF wf] by (simp only: labels)
  have "mset (labelsOf h (allItems s')) \<subseteq># mset (labelsOf h (allItems s))"
    unfolding mset_labelsOf using sub by (rule image_mset_subseteq_mono)
  then show "distinct (labelsOf h (allItems s'))"
    using wellFormedD(2) [OF wf] by (rule distinct_submset)
qed (fact dc dt)+

lemma moveCandidate_summary:
  assumes wf: "wellFormed h s" and T: "T \<in> set (tierlist s)"
    and dc: "draggedCandidateItem s = Some I"
  shows "add_mset I (mset (pool (moveCandidateItemToTier s T I s))) = mset (pool s)"
    and "mset (tierItems (moveCandidateItemToTier s T I s)) = add_mset I (mset (tierItems s))"
    and "map Tier.label (tierlist (moveCandidateItemToTier s T I s)) = map Tier.label (tierlist s)"
    and "draggedCandidateItem (moveCandidateItemToTier s T I s) = None"
    and "draggedTierItem (moveCandidateItemToTier s T I s) = draggedTierItem s"
    and "mset (allItems (moveCandidateItemToTier s T I s)) = mset (allItems s)"
proof -
  let ?s' = "moveCandidateItemToTier s T I s"
  have I: "I \<in> set (pool s)"
    using wf dc by (rule wellFormedD(7))
  have nI: "I \<notin> set (concat (map items (tierlist s)))"
    using wellFormedD(3) [OF wf] I by (auto simp: allItems_def tierItems_def)
  have d: "distinct (concat (map items (tierlist s)))"
    using wellFormedD(5) [OF wf] by (simp add: tierItems_def)
  have L: "Tier.label T \<in> set (map Tier.label (tierlist s))"
    using T by simp
  show 1: "add_mset I (mset (pool ?s')) = mset (pool s)"
    unfolding pool_moveCandidateItemToTier
    using wellFormedD(6) [OF wf] I by (rule mset_Set_delete)
  show 2: "mset (tierItems ?s') = add_mset I (mset (tierItems s))"
    unfolding tierItems_def tierlist_moveCandidateItemToTier
    using wellFormedD(1) [OF wf] d L nI by (rule add_step(1))
  show "map Tier.label (tierlist ?s') = map Tier.label (tierlist s)"
    unfolding tierlist_moveCandidateItemToTier
    using wellFormedD(1) [OF wf] d L nI by (rule add_step(2))
  show "draggedCandidateItem ?s' = None" "draggedTierItem ?s' = draggedTierItem s"
    by (simp_all add: moveCandidateItemToTier_def removeItemFromCandidatelist_def Let_def)
  have "add_mset I (mset (allItems ?s')) = add_mset I (mset (allItems s))"
    unfolding allItems_def using 1 2 by simp
  then show "mset (allItems ?s') = mset (allItems s)" by simp
qed

lemma moveTier_summary:
  assumes wf: "wellFormed h s" and T: "T \<in> set (tierlist s)"
    and dt: "draggedTierItem s = Some J"
    and origin: "findOriginTier h (tierlist s) J = Some A"
  shows "mset (tierItems (moveTierItemToAnotherTier h s T J p)) = mset (tierItems s)"
    and "map Tier.label (tierlist (moveTierItemToAnotherTier h s T J p)) = map Tier.label (tierlist s)"
    and "draggedTierItem (moveTierItemToAnotherTier h s T J p) = None"
    and "draggedCandidateItem (moveTierItemToAnotherTier h s T J p) = draggedCandidateItem p"
    and "pool (moveTierItemToAnotherTier h s T J p) = pool p"
proof -
  have A: "A \<in> set (tierlist s)" and J: "J \<in> set (items A)"
    using wf dt origin by (rule origin_holds_item)+
  show "mset (tierItems (moveTierItemToAnotherTier h s T J p)) = mset (tierItems s)"
    unfolding tierItems_def tierlist_moveTierItemToAnotherTier(1) [OF origin]
    using move_steps(1) [OF wf A J T] by (simp only: tierItems_def)
  show "map Tier.label (tierlist (moveTierItemToAnotherTier h s T J p)) = map Tier.label (tierlist s)"
    unfolding tierlist_moveTierItemToAnotherTier(1) [OF origin]
    by (rule move_steps(2) [OF wf A J T])
  show "draggedTierItem (moveTierItemToAnotherTier h s T J p) = None"
    "draggedCandidateItem (moveTierItemToAnotherTier h s T J p) = draggedCandidateItem p"
    "pool (moveTierItemToAnotherTier h s T J p) = pool p"
    by (rule tierlist_moveTierItemToAnotherTier [OF origin])+
qed

lemma handleDropOnTierList_cases:
  obtains (nothing) "handleDropOnTierList h T s = s"
  | (fromPool) I where "draggedCandidateItem s = Some I"
      "handleDropOnTierList h T s = moveCandidateItemToTier s T I s"
  | (fromTier) J A where "draggedCandidateItem s = None" "draggedTierItem s = Some J"
      "findOriginTier h (tierlist s) J = Some A"
      "handleDropOnTierList h T s = moveTierItemToAnotherTier h s T J s"
  | (both) I J A where "draggedCandidateItem s = Some I" "draggedTierItem s = Some J"
      "findOriginTier h (tierlist s) J = Some A"
      "handleDropOnTierList h T s
         = moveTierItemToAnotherTier h s T J (moveCandidateItemToTier s T I s)"
proof (cases "draggedCandidateItem s")
  case None
  note dc = this
  show ?thesis
  proof (cases "draggedTierItem s")
    case None
    with dc have "handleDropOnTierList h T s = s"
      by (simp add: handleDropOnTierList_def)
    then show ?thesis by (rule nothing)
  next
    case (Some J)
    note dt = this
    show ?thesis
    proof (cases "findOriginTier h (tierlist s) J")
      case None
      with dc dt have "handleDropOnTierList h T s = s"
        by (simp add: handleDropOnTierList_def moveTierItemToAnotherTier_def)
      then show ?thesis by (rule nothing)
    next
      case (Some A)
      from dc dt have "handleDropOnTierList h T s = moveTierItemToAnotherTier h s T J s"
        by (simp add: handleDropOnTierList_def)
      with dc dt Some show ?thesis by (rule fromTier)
    qed
  qed
next
  case (Some I)
  note dc = this
  show ?thesis
  proof (cases "draggedTierItem s")
    case None
    with dc have "handleDropOnTierList h T s = moveCandidateItemToTier s T I s"
      by (simp add: handleDropOnTierList_def)
    with dc show ?thesis by (rule fromPool)
  next
    case (Some J)
    note dt = this
    show ?thesis
    proof (cases "findOriginTier h (tierlist s) J")
      case None
      with dc dt have "handleDropOnTierList h T s = moveCandidateItemToTier s T I s"
        by (simp add: handleDropOnTierList_def moveTierItemToAnotherTier_def)
      with dc show ?thesis by (rule fromPool)
    next
      case (Some A)
      from dc dt have "handleDropOnTierList h T s
         = moveTierItemToAnotherTier h s T J (moveCandidateItemToTier s T I s)"
        by (simp add: handleDropOnTierList_def)
      with dc dt Some show ?thesis by (rule both)
    qed
  qed
qed


lemma wellFormed_same_items:
  assumes wf: "wellFormed h s"
    and labels: "map Tier.label (tierlist s') = map Tier.label (tierlist s)"
    and same: "mset (allItems s') = mset (allItems s)"
    and dc: "\<And>i. draggedCandidateItem s' = Some i \<Longrightarrow> i \<in> set (pool s')"
    and dt: "\<And>i. draggedTierItem s' = Some i \<Longrightarrow> i \<in> set (allItems s)"
  shows "wellFormed h s'"
proof (rule wellFormed_step [OF wf labels])
  show "mset (allItems s') \<subseteq># mset (allItems s)"
    by (simp add: same)
  show "\<And>i. draggedCandidateItem s' = Some i \<Longrightarrow> i \<in> set (pool s')"
    by (fact dc)
  have "set (allItems s') = set (allItems s)"
    using same by (rule mset_eq_setD)
  then show "\<And>i. draggedTierItem s' = Some i \<Longrightarrow> i \<in> set (allItems s')"
    using dt by simp
qed

lemma handleDropOnTierList_wellFormed:
  assumes wf: "wellFormed h s" and T: "T \<in> set (tierlist s)"
  shows "wellFormed h (handleDropOnTierList h T s)"
proof (cases h T s rule: handleDropOnTierList_cases)
  case nothing
  with wf show ?thesis by simp
next
  case (fromPool I)
  note m = moveCandidate_summary [OF wf T fromPool(1)]
  show ?thesis
    unfolding fromPool(2)
  proof (rule wellFormed_same_items [OF wf m(3) m(6)])
    show "\<And>i. draggedCandidateItem (moveCandidateItemToTier s T I s) = Some i
           \<Longrightarrow> i \<in> set (pool (moveCandidateItemToTier s T I s))"
      by (simp add: m(4))
    show "\<And>i. draggedTierItem (moveCandidateItemToTier s T I s) = Some i
           \<Longrightarrow> i \<in> set (allItems s)"
      unfolding m(5) by (rule wellFormedD(8) [OF wf])
  qed
next
  case (fromTier J A)
  note m = moveTier_summary [OF wf T fromTier(2,3), of s]
  show ?thesis
    unfolding fromTier(4)
  proof (rule wellFormed_same_items [OF wf m(2)])
    show "mset (allItems (moveTierItemToAnotherTier h s T J s)) = mset (allItems s)"
      by (simp add: allItems_def m(1) m(5))
    show "\<And>i. draggedCandidateItem (moveTierItemToAnotherTier h s T J s) = Some i
           \<Longrightarrow> i \<in> set (pool (moveTierItemToAnotherTier h s T J s))"
      by (simp add: m(4) fromTier(1))
    show "\<And>i. draggedTierItem (moveTierItemToAnotherTier h s T J s) = Some i
           \<Longrightarrow> i \<in> set (allItems s)"
      by (simp add: m(3))
  qed
next
  case (both I J A)
  let ?p = "moveCandidateItemToTier s T I s"
  note c = moveCandidate_summary [OF wf T both(1)]
  note m = moveTier_summary [OF wf T both(2,3), of ?p]
  show ?thesis
    unfolding both(4)
  proof (rule wellFormed_step [OF wf m(2)])
    have "mset (pool ?p) \<subseteq># mset (pool s)"
      unfolding c(1) [symmetric] by simp
    then show "mset (allItems (moveTierItemToAnotherTier h s T J ?p)) \<subseteq># mset (allItems s)"
      by (simp add: allItems_def m(1) m(5))
    show "\<And>i. draggedCandidateItem (moveTierItemToAnotherTier h s T J ?p) = Some i
           \<Longrightarrow> i \<in> set (pool (moveTierItemToAnotherTier h s T J ?p))"
      by (simp add: m(4) c(4))
    show "\<And>i. draggedTierItem (moveTierItemToAnotherTier h s T J ?p) = Some i
           \<Longrightarrow> i \<in> set (allItems (moveTierItemToAnotherTier h s T J ?p))"
      by (simp add: m(3))
  qed
qed

lemma handleDropOnTierList_same_items:
  assumes wf: "wellFormed h s" and T: "T \<in> set (tierlist s)"
    and one: "draggedCandidateItem s = None \<or> draggedTierItem s = None"
  shows "mset (allItems (handleDropOnTierList h T s)) = mset (allItems s)"
proof (cases h T s rule: handleDropOnTierList_cases)
  case nothing
  then show ?thesis by simp
next
  case (fromPool I)
  show ?thesis
    unfolding fromPool(2) by (rule moveCandidate_summary(6) [OF wf T fromPool(1)])
next
  case (fromTier J A)
  note m = moveTier_summary [OF wf T fromTier(2,3), of s]
  show ?thesis
    unfolding fromTier(4) by (simp add: allItems_def m(1) m(5))
next
  case (both I J A)
  with one show ?thesis by simp
qed

lemma handleDropOnCandidateList_cases:
  obtains (nothing) "handleDropOnCandidateList h s = s"
  | (fromTier) J A where "draggedTierItem s = Some J"
      "findOriginTier h (tierlist s) J = Some A"
      "tierlist (handleDropOnCandidateList h s)
         = map (\<lambda>t. if Tier.label t = Tier.label A then removeItemFromTier h A J else t)
             (tierlist s)"
      "pool (handleDropOnCandidateList h s) = newSet (pool s @ [J])"
      "draggedTierItem (handleDropOnCandidateList h s) = None"
      "draggedCandidateItem (handleDropOnCandidateList h s) = draggedCandidateItem s"
proof (cases "draggedTierItem s")
  case None
  then have "handleDropOnCandidateList h s = s"
    by (simp add: handleDropOnCandidateList_def)
  then show ?thesis by (rule nothing)
next
  case (Some J)
  note dt = this
  show ?thesis
  proof (cases "findOriginTier h (tierlist s) J")
    case None
    with dt have "handleDropOnCandidateList h s = s"
      by (simp add: handleDropOnCandidateList_def)
    then show ?thesis by (rule nothing)
  next
    case (Some A)
    show ?thesis
      using dt Some
      by (rule fromTier)
         (simp_all add: handleDropOnCandidateList_def dt Some addItemToCandidate_def Let_def pool_def)
  qed
qed

lemma handleDropOnCandidateList_summary:
  assumes wf: "wellFormed h s"
  shows "wellFormed h (handleDropOnCandidateList h s)"
    and "mset (allItems (handleDropOnCandidateList h s)) = mset (allItems s)"
proof -
  let ?s' = "handleDropOnCandidateList h s"
  have "wellFormed h ?s' \<and> mset (allItems ?s') = mset (allItems s)"
  proof (cases h s rule: handleDropOnCandidateList_cases)
    case nothing
    with wf show ?thesis by simp
  next
    case (fromTier J A)
    have A: "A \<in> set (tierlist s)" and J: "J \<in> set (items A)"
      using wf fromTier(1,2) by (rule origin_holds_item)+
    have once: "distinct (labelsOf h (concat (map items (tierlist s))))"
      using wellFormedD(4) [OF wf] by (simp add: tierItems_def)
    have r1: "add_mset J (mset (tierItems ?s')) = mset (tierItems s)"
      unfolding tierItems_def fromTier(3)
      using wellFormedD(1) [OF wf] once A J by (rule remove_step(1))
    have r2: "map Tier.label (tierlist ?s') = map Tier.label (tierlist s)"
      unfolding fromTier(3)
      using wellFormedD(1) [OF wf] once A J by (rule remove_step(2))
    have "J \<in> set (tierItems s)"
      using A J by (auto simp: tierItems_def)
    with wellFormedD(3) [OF wf] have "distinct (pool s @ [J])"
      by (auto simp: allItems_def)
    then have p: "pool ?s' = pool s @ [J]"
      unfolding fromTier(4) by (rule newSet_distinct_id)
    have "add_mset J (mset (allItems ?s')) = add_mset J (mset (allItems s))"
      unfolding allItems_def using r1 by (simp add: p)
    then have same: "mset (allItems ?s') = mset (allItems s)"
      by simp
    have "wellFormed h ?s'"
    proof (rule wellFormed_same_items [OF wf r2 same])
      show "\<And>i. draggedCandidateItem ?s' = Some i \<Longrightarrow> i \<in> set (pool ?s')"
        unfolding fromTier(6) p using wellFormedD(7) [OF wf] by simp
      show "\<And>i. draggedTierItem ?s' = Some i \<Longrightarrow> i \<in> set (allItems s)"
        by (simp add: fromTier(5))
    qed
    with same show ?thesis by simp
  qed
  then show "wellFormed h ?s'" and "mset (allItems ?s') = mset (allItems s)"
    by simp_all
qed

lemma resetList_summary:
  assumes wf: "wellFormed h s"
  shows "wellFormed h (resetList s)"
    and "mset (allItems (resetList s)) = mset (allItems s)"
proof -
  have p: "pool (resetList s) = allItems s"
    using wellFormedD(3) [OF wf]
    by (simp add: resetList_def pool_def tierItems_def allItems_def Let_def foldl_append_items
          newSet_distinct_id)
  have t: "tierItems (resetList s) = []"
    by (simp add: resetList_def tierItems_def Let_def newSet_Nil o_def)
  show same: "mset (allItems (resetList s)) = mset (allItems s)"
    by (simp add: allItems_def [of "resetList s"] p t)
  have l: "map Tier.label (tierlist (resetList s)) = map Tier.label (tierlist s)"
    by (simp add: resetList_def Let_def o_def)
  have dc: "draggedCandidateItem (resetList s) = draggedCandidateItem s"
    and dt: "draggedTierItem (resetList s) = draggedTierItem s"
    by (simp_all add: resetList_def Let_def)
  show "wellFormed h (resetList s)"
  proof (rule wellFormed_same_items [OF wf l same])
    show "\<And>i. draggedCandidateItem (resetList s) = Some i \<Longrightarrow> i \<in> set (pool (resetList s))"
      unfolding dc p using wellFormedD(7) [OF wf] by (simp add: allItems_def)
    show "\<And>i. draggedTierItem (resetList s) = Some i \<Longrightarrow> i \<in> set (allItems s)"
      unfolding dt by (rule wellFormedD(8) [OF wf])
  qed
qed


lemma handleDropOnTierList_sub_items:
  assumes wf: "wellFormed h s" and T: "T \<in> set (tierlist s)"
  shows "mset (allItems (handleDropOnTierList h T s)) \<subseteq># mset (allItems s)"
proof (cases h T s rule: handleDropOnTierList_cases)
  case nothing
  then show ?thesis by simp
next
  case (fromPool I)
  show ?thesis
    unfolding fromPool(2) by (simp add: moveCandidate_summary(6) [OF wf T fromPool(1)])
next
  case (fromTier J A)
  note m = moveTier_summary [OF wf T fromTier(2,3), of s]
  show ?thesis
    unfolding fromTier(4) by (simp add: allItems_def m(1) m(5))
next
  case (both I J A)
  let ?p = "moveCandidateItemToTier s T I s"
  note c = moveCandidate_summary [OF wf T both(1)]
  note m = moveTier_summary [OF wf T both(2,3), of ?p]
  have "mset (pool ?p) \<subseteq># mset (pool s)"
    unfolding c(1) [symmetric] by simp
  then show ?thesis
    unfolding both(4) by (simp add: allItems_def m(1) m(5))
qed

lemma drag_items:
  "allItems (dragCandidateItem i s) = allItems s"
  "allItems (undragCandidateItem s) = allItems s"
  "allItems (dragTierItem i s) = allItems s"
  "allItems (undragTierItem s) = allItems s"
  by (simp_all add: dragCandidateItem_def undragCandidateItem_def
        dragTierItem_def undragTierItem_def allItems_def tierItems_def pool_def)

lemma drag_fields:
  "tierlist (dragCandidateItem i s) = tierlist s" "pool (dragCandidateItem i s) = pool s"
  "draggedCandidateItem (dragCandidateItem i s) = Some i"
  "draggedTierItem (dragCandidateItem i s) = draggedTierItem s"
  "tierlist (undragCandidateItem s) = tierlist s" "pool (undragCandidateItem s) = pool s"
  "draggedCandidateItem (undragCandidateItem s) = None"
  "draggedTierItem (undragCandidateItem s) = draggedTierItem s"
  "tierlist (dragTierItem i s) = tierlist s" "pool (dragTierItem i s) = pool s"
  "draggedCandidateItem (dragTierItem i s) = draggedCandidateItem s"
  "draggedTierItem (dragTierItem i s) = Some i"
  "tierlist (undragTierItem s) = tierlist s" "pool (undragTierItem s) = pool s"
  "draggedCandidateItem (undragTierItem s) = draggedCandidateItem s"
  "draggedTierItem (undragTierItem s) = None"
  by (simp_all add: dragCandidateItem_def undragCandidateItem_def
        dragTierItem_def undragTierItem_def pool_def)

lemma drag_wellFormed:
  assumes wf: "wellFormed h s"
  shows "i \<in> set (pool s) \<Longrightarrow> wellFormed h (dragCandidateItem i s)"
    and "wellFormed h (undragCandidateItem s)"
    and "i \<in> set (tierItems s) \<Longrightarrow> wellFormed h (dragTierItem i s)"
    and "wellFormed h (undragTierItem s)"
proof -
  note d = wellFormedD [OF wf]
  show "i \<in> set (pool s) \<Longrightarrow> wellFormed h (dragCandidateItem i s)"
    by (rule wellFormed_same_items [OF wf]) (simp_all add: drag_fields drag_items d(7,8))
  show "wellFormed h (undragCandidateItem s)"
    by (rule wellFormed_same_items [OF wf]) (simp_all add: drag_fields drag_items d(7,8))
  have "i \<in> set (tierItems s) \<Longrightarrow> i \<in> set (allItems s)"
    by (simp add: allItems_def)
  then show "i \<in> set (tierItems s) \<Longrightarrow> wellFormed h (dragTierItem i s)"
    by (intro wellFormed_same_items [OF wf]) (simp_all add: drag_fields drag_items d(7,8))
  show "wellFormed h (undragTierItem s)"
    by (rule wellFormed_same_items [OF wf]) (simp_all add: drag_fields drag_items d(7,8))
qed

lemma step_wellFormed:
  assumes wf: "wellFormed h s" and off: "offered s x"
  shows "wellFormed h (step h s x)"
  using off
  by (cases x)
     (simp_all add: drag_wellFormed [OF wf] handleDropOnTierList_wellFormed [OF wf]
        handleDropOnCandidateList_summary(1) [OF wf] resetList_summary(1) [OF wf])

lemma step_sub_items:
  assumes wf: "wellFormed h s" and off: "offered s x"
  shows "mset (allItems (step h s x)) \<subseteq># mset (allItems s)"
  using off
  by (cases x)
     (simp_all add: drag_items handleDropOnTierList_sub_items [OF wf]
        handleDropOnCandidateList_summary(2) [OF wf] resetList_summary(2) [OF wf])

lemma step_same_items:
  assumes wf: "wellFormed h s" and off: "offered s x"
    and one: "oneSelectionAtTierDrops h s (x # xs)"
  shows "mset (allItems (step h s x)) = mset (allItems s)"
  using off one
  by (cases x)
     (simp_all add: drag_items handleDropOnTierList_same_items [OF wf]
        handleDropOnCandidateList_summary(2) [OF wf] resetList_summary(2) [OF wf])

lemma oneSelectionAtTierDrops_tail:
  "oneSelectionAtTierDrops h s (x # xs) \<Longrightarrow> oneSelectionAtTierDrops h (step h s x) xs"
  by (cases x) simp_all

lemma exec_wellFormed:
  assumes "wellFormed h s" "exec h s ops = Some s'"
  shows "wellFormed h s'"
    and "mset (allItems s') \<subseteq># mset (allItems s)"
    and "oneSelectionAtTierDrops h s ops \<Longrightarrow> mset (allItems s') = mset (allItems s)"
  using assms
proof (induction ops arbitrary: s)
  case Nil
  {
    case 1 then show ?case by simp
  next
    case 2 then show ?case by simp
  next
    case 3 then show ?case by simp
  }
next
  case (Cons x xs)
  {
    case 1
    then have off: "offered s x" and ex: "exec h (step h s x) xs = Some s'"
      by (simp_all split: if_splits)
    from Cons.IH(1) [OF step_wellFormed [OF 1(1) off] ex] show ?case .
  next
    case 2
    then have off: "offered s x" and ex: "exec h (step h s x) xs = Some s'"
      by (simp_all split: if_splits)
    from Cons.IH(2) [OF step_wellFormed [OF 2(1) off] ex] step_sub_items [OF 2(1) off]
    show ?case by (rule subset_mset.order_trans)
  next
    case 3
    then have off: "offered s x" and ex: "exec h (step h s x) xs = Some s'"
      by (simp_all split: if_splits)
    from Cons.IH(3) [OF oneSelectionAtTierDrops_tail [OF 3(1)] step_wellFormed [OF 3(2) off] ex]
      step_same_items [OF 3(2) off 3(1)]
    show ?case by simp
  }
qed


lemma seed_wellFormed: "wellFormed seedItems seed"
  by (simp add: wellFormed_def seed_defs view_defs)

lemma seed_labels:
  "seedLabels seed = [Some ''Item 1'', Some ''Item 2'', Some ''Item 3'', Some ''Vivo'']"
  by (simp add: seedLabels_def seed_defs view_defs)

lemma filter_absent:
  "l \<notin> set (concat xss) \<Longrightarrow> filter (\<lambda>xs. l \<in> set xs) xss = []"
  by (induction xss) simp_all

lemma one_list_holds:
  "distinct (concat xss) \<Longrightarrow> l \<in> set (concat xss)
     \<Longrightarrow> length (filter (\<lambda>xs. l \<in> set xs) xss) = 1"
proof (induction xss)
  case Nil
  then show ?case by simp
next
  case (Cons xs xss)
  show ?case
  proof (cases "l \<in> set xs")
    case True
    with Cons.prems(1) have "l \<notin> set (concat xss)" by auto
    then have "filter (\<lambda>xs. l \<in> set xs) xss = []" by (rule filter_absent)
    with True show ?thesis by simp
  next
    case False
    with Cons.prems have "distinct (concat xss)" "l \<in> set (concat xss)" by simp_all
    then have "length (filter (\<lambda>xs. l \<in> set xs) xss) = 1" by (rule Cons.IH)
    with False show ?thesis by simp
  qed
qed

lemma count_list_distinct: "distinct xs \<Longrightarrow> l \<in> set xs \<Longrightarrow> count_list xs l = 1"
  by (induction xs) auto

lemma labels_of_locations:
  "concat (map (labelsOf h) (locations s)) = labelsOf h (allItems s)"
proof -
  have "labelsOf h = map (\<lambda>i. Item.label (h i))"
    by (rule ext) (simp add: labelsOf_def)
  then show ?thesis
    by (simp add: locations_def allItems_def tierItems_def map_concat)
qed

lemma length_locationsOf:
  "length (locationsOf h s l)
     = length (filter (\<lambda>xs. l \<in> set xs) (map (labelsOf h) (locations s)))"
  by (simp add: locationsOf_def filter_map o_def)

lemma exactly_one_location:
  assumes "distinct (labelsOf h (allItems s))" "l \<in> set (labelsOf h (allItems s))"
  shows "length (locationsOf h s l) = 1"
  unfolding length_locationsOf
  using assms unfolding labels_of_locations [symmetric] by (rule one_list_holds)

text \<open>
  Claim C3. In every state reached from the first render by calls the page offers, with
  no drop on a tier made while both drag selections are set, each item of the first
  render, identified by its label, is in exactly one place: its label occurs exactly once
  among the labels of the pool and of all tiers together, and exactly one of the places
  (the pool, or one tier's items) holds an item with that label. So no item is both in
  the pool and in a tier, or in two tiers, or twice in one of them, and none is missing.
\<close>

theorem C3_each_item_in_exactly_one_location:
  assumes run: "exec seedItems seed ops = Some s"
    and one: "oneSelectionAtTierDrops seedItems seed ops"
  shows "distinct (seedLabels s)
       \<and> mset (seedLabels s) = mset (seedLabels seed)
       \<and> (\<forall>l \<in> set (seedLabels seed).
             count_list (seedLabels s) l = 1 \<and> length (locationsOf seedItems s l) = 1)"
proof -
  note e = exec_wellFormed [OF seed_wellFormed run]
  have 1: "distinct (seedLabels s)"
    unfolding seedLabels_def using e(1) by (rule wellFormedD(2))
  have "mset (allItems s) = mset (allItems seed)"
    using one by (rule e(3))
  then have 2: "mset (seedLabels s) = mset (seedLabels seed)"
    unfolding seedLabels_def mset_labelsOf by simp
  have 3: "count_list (seedLabels s) l = 1 \<and> length (locationsOf seedItems s l) = 1"
    if "l \<in> set (seedLabels seed)" for l
  proof -
    have "set (seedLabels s) = set (seedLabels seed)"
      using 2 by (rule mset_eq_setD)
    with that have l: "l \<in> set (seedLabels s)" by simp
    have "count_list (seedLabels s) l = 1"
      using 1 l by (rule count_list_distinct)
    moreover have "length (locationsOf seedItems s l) = 1"
      using 1 l unfolding seedLabels_def by (rule exactly_one_location)
    ultimately show ?thesis by simp
  qed
  from 1 2 3 show ?thesis by blast
qed

theorem C3_witness:
  "exec seedItems seed [DragCandidateItem 1, DropOnTierList tierA]
     = Some (handleDropOnTierList seedItems tierA (dragCandidateItem 1 seed))
   \<and> oneSelectionAtTierDrops seedItems seed [DragCandidateItem 1, DropOnTierList tierA]
   \<and> view (handleDropOnTierList seedItems tierA (dragCandidateItem 1 seed))
     = ([2, 3], [[0], [1], [], [], [], [], []], None, None)
   \<and> distinct (seedLabels (handleDropOnTierList seedItems tierA (dragCandidateItem 1 seed)))
   \<and> mset (seedLabels (handleDropOnTierList seedItems tierA (dragCandidateItem 1 seed)))
     = {#Some ''Item 1'', Some ''Item 2'', Some ''Item 3'', Some ''Vivo''#}
   \<and> length (locationsOf seedItems
         (handleDropOnTierList seedItems tierA (dragCandidateItem 1 seed)) (Some ''Item 1'')) = 1
   \<and> locationsOf seedItems
         (handleDropOnTierList seedItems tierA (dragCandidateItem 1 seed)) (Some ''Item 1'') = [[1]]"
proof -
  let ?s = "handleDropOnTierList seedItems tierA (dragCandidateItem 1 seed)"
  have o1: "offered seed (DragCandidateItem 1)"
    by (simp add: seed_defs view_defs)
  have o2: "offered (dragCandidateItem 1 seed) (DropOnTierList tierA)"
    by (simp add: seed_def dragCandidateItem_def)
  have e: "exec seedItems seed [DragCandidateItem 1, DropOnTierList tierA] = Some ?s"
    using o1 o2 by simp
  have g: "oneSelectionAtTierDrops seedItems seed [DragCandidateItem 1, DropOnTierList tierA]"
    by (simp add: seed_def dragCandidateItem_def)
  have v: "view ?s = ([2, 3], [[0], [1], [], [], [], [], []], None, None)"
    by (simp add: view_def seed_defs handler_defs view_defs)
  have w: "locationsOf seedItems ?s (Some ''Item 1'') = [[1]]"
    by (simp add: locationsOf_def locations_def seed_defs handler_defs view_defs)
  note c = C3_each_item_in_exactly_one_location [OF e g]
  from c have d: "distinct (seedLabels ?s)" ..
  from c have "mset (seedLabels ?s) = mset (seedLabels seed)"
    by (elim conjE)
  then have m: "mset (seedLabels ?s)
     = {#Some ''Item 1'', Some ''Item 2'', Some ''Item 3'', Some ''Vivo''#}"
    by (simp only: seed_labels mset.simps)
  have "Some ''Item 1'' \<in> set (seedLabels seed)"
    by (simp add: seed_labels)
  with c have n: "length (locationsOf seedItems ?s (Some ''Item 1'')) = 1"
    by blast
  from e g v d m n w show ?thesis by (intro conjI)
qed

text \<open>
  The condition on the drag selections is used: a drop on a tier with a pool-origin and
  a tier-origin selection both set runs both branches of \<^verbatim>\<open>handleDropOnTierList\<close> on the
  tier list of the same render, and the tier list recorded by the second replaces that
  of the first.
\<close>

lemma drop_with_both_selections_set:
  "map_option view (exec seedItems seed [DragCandidateItem 2, DragTierItem 0, DropOnTierList tierA])
     = Some ([1, 3], [[], [0], [], [], [], [], []], None, None)
   \<and> \<not> oneSelectionAtTierDrops seedItems seed
         [DragCandidateItem 2, DragTierItem 0, DropOnTierList tierA]"
  by (simp add: view_def seed_defs handler_defs view_defs)

end
